theory Spec2Isabelle
  imports Complex_Main
begin

section \<open>Python values used by the KPI services\<close>

text \<open>
  Exceptions of the Python code are values: every function that can raise returns
  \<open>py_error + 'a\<close>, with \<open>Inl\<close> for the exception.
\<close>

datatype py_error =
    ValueError | TypeError | OverflowError | ZeroDivisionError
  | InvalidOperation | DivisionByZero | Overflow
  | ClientError string | RegistrationFailed

text \<open>
  \<open>datetime.date\<close>: a triple (year, month, day). The constructor \<open>date(y, m, d)\<close> reads
  its arguments as C ints and raises OverflowError when one of them does not fit
  (\<open>- 2\<^sup>3\<^sup>1 \<le> n < 2\<^sup>3\<^sup>1\<close>); otherwise it raises ValueError unless \<open>1 \<le> y \<le> 9999\<close>
  (MINYEAR, MAXYEAR), \<open>1 \<le> m \<le> 12\<close> and the day exists in that month. Comparison is
  lexicographic on (year, month, day).
\<close>

datatype date = Date (year: int) (month: int) (day: int)

definition isleap :: "int \<Rightarrow> bool" where
  "isleap y = (y mod 4 = 0 \<and> (y mod 100 \<noteq> 0 \<or> y mod 400 = 0))"

definition mdays :: "int \<Rightarrow> int" where
  "mdays m = (if m = 2 then 28 else if m = 4 \<or> m = 6 \<or> m = 9 \<or> m = 11 then 30 else 31)"

definition days_in_month :: "int \<Rightarrow> int \<Rightarrow> int" where
  "days_in_month y m = mdays m + (if m = 2 \<and> isleap y then 1 else 0)"

definition valid_date :: "date \<Rightarrow> bool" where
  "valid_date d = (1 \<le> year d \<and> year d \<le> 9999 \<and> 1 \<le> month d \<and> month d \<le> 12
     \<and> 1 \<le> day d \<and> day d \<le> days_in_month (year d) (month d))"

definition c_int :: "int \<Rightarrow> bool" where
  "c_int n = (- 2147483648 \<le> n \<and> n \<le> 2147483647)"

definition mk_date :: "int \<Rightarrow> int \<Rightarrow> int \<Rightarrow> py_error + date" where
  "mk_date y m d =
     (if \<not> (c_int y \<and> c_int m \<and> c_int d) then Inl OverflowError
      else if valid_date (Date y m d) then Inr (Date y m d)
      else Inl ValueError)"

definition date_le :: "date \<Rightarrow> date \<Rightarrow> bool" where
  "date_le a b = (year a < year b \<or> (year a = year b \<and>
     (month a < month b \<or> (month a = month b \<and> day a \<le> day b))))"

definition date_min :: "date \<Rightarrow> date \<Rightarrow> date" where
  \<comment> \<open>Python's \<open>min(a, b)\<close>: \<open>b\<close> only when \<open>b < a\<close>.\<close>
  "date_min a b = (if date_le a b then a else b)"

text \<open>
  \<open>calendar.monthrange(year, month)[1]\<close>: the number of days of the month; raises
  IllegalMonthError (a ValueError) unless \<open>1 \<le> month \<le> 12\<close>, and accepts every year.
\<close>

definition monthrange_days :: "int \<Rightarrow> int \<Rightarrow> py_error + int" where
  "monthrange_days y m = (if 1 \<le> m \<and> m \<le> 12 then Inr (days_in_month y m) else Inl ValueError)"

section \<open>Fiscal calendar (app/services/metrics.py)\<close>

definition get_fiscal_year :: "date \<Rightarrow> int \<Rightarrow> int" where
  "get_fiscal_year target_date start_month =
     (if month target_date \<ge> start_month then year target_date else year target_date - 1)"

definition get_fiscal_year_range :: "int \<Rightarrow> int \<Rightarrow> py_error + (date \<times> date)" where
  "get_fiscal_year_range fiscal_year start_month =
     (case mk_date fiscal_year start_month 1 of
        Inl e \<Rightarrow> Inl e
      | Inr start_date \<Rightarrow>
          (if start_month = 1 then
             (case mk_date fiscal_year 12 31 of
                Inl e \<Rightarrow> Inl e
              | Inr end_date \<Rightarrow> Inr (start_date, end_date))
           else
             (let end_year = fiscal_year + 1; end_month = start_month - 1 in
              case monthrange_days end_year end_month of
                Inl e \<Rightarrow> Inl e
              | Inr last_day \<Rightarrow>
                  (case mk_date end_year end_month last_day of
                     Inl e \<Rightarrow> Inl e
                   | Inr end_date \<Rightarrow> Inr (start_date, end_date)))))"

text \<open>
  The \<open>while current <= end_date\<close> loop of \<open>get_months_in_fiscal_year\<close>. The next month is
  built by the \<open>date\<close> constructor, so the loop goes on only from a date whose month is in
  1..12; that bounds the number of iterations left.
\<close>

function months_loop :: "date \<Rightarrow> date \<Rightarrow> date list \<Rightarrow> py_error + date list" where
  "months_loop current end_date months =
     (if date_le current end_date then
        (if month current = 12 then
           (case mk_date (year current + 1) 1 1 of
              Inl e \<Rightarrow> Inl e
            | Inr nxt \<Rightarrow> months_loop nxt end_date (months @ [current]))
         else
           (case mk_date (year current) (month current + 1) 1 of
              Inl e \<Rightarrow> Inl e
            | Inr nxt \<Rightarrow> months_loop nxt end_date (months @ [current])))
      else Inr months)"
  by pat_completeness auto

termination
proof (relation "measure (\<lambda>(c, e, ms). nat (12 * (year e - year c) + (13 - month c)))")
  show "wf (measure (\<lambda>(c, e, ms). nat (12 * (year e - year c) + (13 - month c))))"
    by simp
next
  fix current end_date :: date and months :: "date list" and nxt
  assume le: "date_le current end_date" and m12: "month current = 12"
    and mk: "mk_date (year current + 1) 1 1 = Inr nxt"
  have nxt: "nxt = Date (year current + 1) 1 1"
    using mk by (simp add: mk_date_def split: if_splits)
  have "year current \<le> year end_date"
    using le by (auto simp: date_le_def)
  then show "((nxt, end_date, months @ [current]), (current, end_date, months))
      \<in> measure (\<lambda>(c, e, ms). nat (12 * (year e - year c) + (13 - month c)))"
    using m12 by (simp add: nxt)
next
  fix current end_date :: date and months :: "date list" and nxt
  assume le: "date_le current end_date" and m12: "month current \<noteq> 12"
    and mk: "mk_date (year current) (month current + 1) 1 = Inr nxt"
  have nxt: "nxt = Date (year current) (month current + 1) 1"
    and v: "valid_date (Date (year current) (month current + 1) 1)"
    using mk by (simp_all add: mk_date_def split: if_splits)
  have "month current + 1 \<le> 12"
    using v by (simp add: valid_date_def)
  moreover have "year current \<le> year end_date"
    using le by (auto simp: date_le_def)
  ultimately show "((nxt, end_date, months @ [current]), (current, end_date, months))
      \<in> measure (\<lambda>(c, e, ms). nat (12 * (year e - year c) + (13 - month c)))"
    by (simp add: nxt)
qed

definition get_months_in_fiscal_year :: "int \<Rightarrow> date option \<Rightarrow> int \<Rightarrow> py_error + date list" where
  "get_months_in_fiscal_year fiscal_year up_to_month start_month =
     (case get_fiscal_year_range fiscal_year start_month of
        Inl e \<Rightarrow> Inl e
      | Inr (start_date, end_date0) \<Rightarrow>
          (let end_date = (case up_to_month of None \<Rightarrow> end_date0
                           | Some u \<Rightarrow> date_min end_date0 u)
           in months_loop start_date end_date []))"

section \<open>Quarters (app/services/period_utils.py)\<close>

definition quarter_to_months :: "int \<rightharpoonup> (int \<times> int \<times> int)" where
  "quarter_to_months = [1 \<mapsto> (9, 10, 11), 2 \<mapsto> (12, 1, 2), 3 \<mapsto> (3, 4, 5), 4 \<mapsto> (6, 7, 8)]"

definition get_quarter_months :: "int \<Rightarrow> int \<times> int \<times> int" where
  "get_quarter_months quarter =
     (case quarter_to_months quarter of None \<Rightarrow> (9, 10, 11) | Some ms \<Rightarrow> ms)"

section \<open>Alert level (app/services/metrics.py)\<close>

text \<open>
  A finite \<open>Decimal\<close> is modelled by the rational number it denotes; the comparisons of
  \<open>get_alert_level\<close> are exact.
\<close>

definition get_alert_level :: "rat option \<Rightarrow> string" where
  "get_alert_level achievement_rate =
     (case achievement_rate of
        None \<Rightarrow> ''none''
      | Some r \<Rightarrow> (if r \<ge> 100 then ''none'' else if r \<ge> 80 then ''warning'' else ''critical''))"

section \<open>Decimal arithmetic (Python's \<open>decimal\<close> module, default context)\<close>

text \<open>
  A finite \<open>Decimal\<close> is modelled by the rational number it denotes; the special values
  (infinities and NaN) are not part of the model. An arithmetic operation of the default
  context computes the exact result and rounds it to 28 significant digits, ties to even
  (\<open>prec = 28\<close>, \<open>ROUND_HALF_EVEN\<close>); it raises Overflow when the rounded result needs an
  exponent above \<open>Emax = 999999\<close>, and a result below the exponent range is rounded to a
  multiple of 10 to the power \<open>Etiny = Emin - prec + 1 = - 1000026\<close>, without an exception
  (Underflow is not trapped).

  \<open>adjusted b a\<close> is the exponent of the leading digit of \<open>a > 0\<close> in base \<open>b\<close>
  (\<open>Decimal.adjusted()\<close> for \<open>b = 10\<close>), found by dividing or multiplying by the base until
  the number lies in \<open>[1, b)\<close>.
\<close>

function adj_down :: "nat \<Rightarrow> rat \<Rightarrow> int \<Rightarrow> int" where
  "adj_down b a k = (if 2 \<le> b \<and> of_nat b \<le> a then adj_down b (a / of_nat b) (k + 1) else k)"
  by pat_completeness auto

termination
proof (relation "measure (\<lambda>(b, a, k). nat \<lfloor>a\<rfloor>)")
  show "wf (measure (\<lambda>(b, a, k). nat \<lfloor>a\<rfloor>))"
    by simp
next
  fix b :: nat and a :: rat and k :: int
  assume h: "2 \<le> b \<and> of_nat b \<le> a"
  then have b2: "(2::rat) \<le> of_nat b" by simp
  have a2: "2 \<le> a" using h b2 by linarith
  have "a / of_nat b \<le> a / 2"
    using b2 a2 by (intro divide_left_mono) simp_all
  also have "\<dots> \<le> a - 1" using a2 by simp
  finally have "\<lfloor>a / of_nat b\<rfloor> \<le> \<lfloor>a - 1\<rfloor>" by (rule floor_mono)
  then have "\<lfloor>a / of_nat b\<rfloor> < \<lfloor>a\<rfloor>" by simp
  moreover have "0 < \<lfloor>a\<rfloor>" using a2 by simp
  ultimately show "((b, a / of_nat b, k + 1), (b, a, k)) \<in> measure (\<lambda>(b, a, k). nat \<lfloor>a\<rfloor>)"
    by simp
qed

function adj_up :: "nat \<Rightarrow> rat \<Rightarrow> int \<Rightarrow> int" where
  "adj_up b a k = (if 2 \<le> b \<and> 0 < a \<and> a < 1 then adj_up b (a * of_nat b) (k - 1) else k)"
  by pat_completeness auto

termination
proof (relation "measure (\<lambda>(b, a, k). nat \<lfloor>1 / a\<rfloor>)")
  show "wf (measure (\<lambda>(b, a, k). nat \<lfloor>1 / a\<rfloor>))"
    by simp
next
  fix b :: nat and a :: rat and k :: int
  assume h: "2 \<le> b \<and> 0 < a \<and> a < 1"
  then have b2: "(2::rat) \<le> of_nat b" by simp
  have a1: "0 < a" "a < 1" using h by simp_all
  define i where "i = 1 / a"
  have i1: "1 < i" using a1 by (simp add: i_def)
  have "1 / (a * of_nat b) = i / of_nat b" by (simp add: i_def)
  also have "\<dots> \<le> i / 2"
    using b2 i1 by (intro divide_left_mono) simp_all
  finally have le: "1 / (a * of_nat b) \<le> i / 2" .
  have "1 \<le> \<lfloor>i\<rfloor>" using i1 by simp
  then have f1: "(1::rat) \<le> of_int \<lfloor>i\<rfloor>" by (simp only: of_int_1_le_iff)
  have "i < of_int \<lfloor>i\<rfloor> + 1" by linarith
  then have "i / 2 < of_int \<lfloor>i\<rfloor>"
    using f1 by linarith
  then have "1 / (a * of_nat b) < of_int \<lfloor>i\<rfloor>"
    using le by linarith
  then have "\<lfloor>1 / (a * of_nat b)\<rfloor> < \<lfloor>1 / a\<rfloor>"
    unfolding i_def by (simp add: floor_less_iff)
  moreover have "0 < \<lfloor>1 / a\<rfloor>" using i1 by (simp add: i_def)
  ultimately show "((b, a * of_nat b, k - 1), (b, a, k)) \<in> measure (\<lambda>(b, a, k). nat \<lfloor>1 / a\<rfloor>)"
    by simp
qed

definition adjusted :: "nat \<Rightarrow> rat \<Rightarrow> int" where
  "adjusted b a = (if 1 \<le> a then adj_down b a 0 else adj_up b a 0)"

definition round_half_even :: "rat \<Rightarrow> int" where
  \<comment> \<open>to the nearest integer, a tie to the even one\<close>
  "round_half_even x =
     (let f = \<lfloor>x\<rfloor>; r = x - of_int f in
      if r < 1 / 2 then f
      else if 1 / 2 < r then f + 1
      else if even f then f else f + 1)"

definition dec_etiny :: int where
  "dec_etiny = - 1000026"

text \<open>
  The context rounding of an exact result \<open>x\<close>: \<open>k\<close> is its adjusted exponent, \<open>q\<close> the
  exponent of the last digit kept, \<open>c\<close> the rounded coefficient; a coefficient rounded up
  to 10 to the power 28 raises the adjusted exponent by one.
\<close>

definition dec_fix :: "rat \<Rightarrow> py_error + rat" where
  "dec_fix x =
     (if x = 0 then Inr 0
      else
        (let k = adjusted 10 \<bar>x\<bar>;
             q = max (k - 27) dec_etiny;
             c = round_half_even (\<bar>x\<bar> / 10 powi q);
             k' = (if 10 ^ 28 \<le> c then k + 1 else k)
         in if 999999 < k' then Inl Overflow
            else Inr (sgn x * of_int c * 10 powi q)))"

definition dec_add :: "rat \<Rightarrow> rat \<Rightarrow> py_error + rat" where
  "dec_add x y = dec_fix (x + y)"

definition dec_sub :: "rat \<Rightarrow> rat \<Rightarrow> py_error + rat" where
  "dec_sub x y = dec_fix (x - y)"

definition dec_mul :: "rat \<Rightarrow> rat \<Rightarrow> py_error + rat" where
  "dec_mul x y = dec_fix (x * y)"

definition dec_div :: "rat \<Rightarrow> rat \<Rightarrow> py_error + rat" where
  "dec_div x y =
     (if y = 0 then Inl (if x = 0 then InvalidOperation else DivisionByZero)
      else dec_fix (x / y))"

text \<open>
  \<open>Decimal.quantize(Decimal("0.01"), rounding=ROUND_HALF_UP)\<close>: to two decimal places,
  ties away from zero; InvalidOperation when the coefficient of the result would have
  more than 28 digits.
\<close>

definition round_half_up :: "rat \<Rightarrow> int" where
  "round_half_up x = (if x \<ge> 0 then \<lfloor>x + 1 / 2\<rfloor> else - \<lfloor>- x + 1 / 2\<rfloor>)"

definition quantize_2dp :: "rat \<Rightarrow> py_error + rat" where
  "quantize_2dp x =
     (let c = round_half_up (x * 100) in
      if 10 ^ 28 \<le> \<bar>c\<bar> then Inl InvalidOperation else Inr (of_int c / 100))"

text \<open>
  \<open>float(d)\<close> for a finite Decimal \<open>d\<close>: the double nearest to \<open>d\<close>, ties to even
  (53 significant bits, subnormals as multiples of 2 to the power -1074), an infinity beyond the
  largest double; it never raises. A finite double is modelled by the rational number it
  denotes.
\<close>

datatype pyfloat = Finite rat | PosInf | NegInf


section \<open>Derived metrics (app/services/metrics.py)\<close>

text \<open>
  \<open>calculate_achievement_rate(actual, target)\<close>. The parameters are annotated \<open>Decimal\<close>;
  \<open>None\<close> is what Python would pass for a null operand. \<open>None == 0\<close> is False, and a
  division with a \<open>None\<close> operand raises TypeError. The quotient and its product by 100 are
  both rounded by the context before the result is quantized.
\<close>

definition calculate_achievement_rate :: "rat option \<Rightarrow> rat option \<Rightarrow> py_error + rat option" where
  "calculate_achievement_rate actual target =
     (if target = Some 0 then Inr None
      else (case (actual, target) of
              (Some a, Some t) \<Rightarrow>
                (case dec_div a t of
                   Inl e \<Rightarrow> Inl e
                 | Inr ratio \<Rightarrow>
                     (case dec_mul ratio 100 of
                        Inl e \<Rightarrow> Inl e
                      | Inr result \<Rightarrow>
                          (case quantize_2dp result of
                             Inl e \<Rightarrow> Inl e
                           | Inr rate \<Rightarrow> Inr (Some rate))))
            | _ \<Rightarrow> Inl TypeError))"


definition normalize_to_month_start :: "date \<Rightarrow> py_error + date" where
  "normalize_to_month_start target_date = mk_date (year target_date) (month target_date) 1"


section \<open>Year-to-date aggregation (app/services/metrics.py)\<close>

text \<open>
  A row of \<open>kpi_values\<close> as the services read it. \<open>row_date\<close> is the date the row's
  \<open>date\<close> entry denotes (\<open>None\<close> for a null entry), \<open>row_value\<close> the number that
  \<open>Decimal(str(value))\<close> denotes for its \<open>value\<close> entry (\<open>None\<close> for null),
  \<open>row_is_target\<close> its \<open>is_target\<close> entry.
\<close>

record kpi_row =
  row_kpi_id :: string
  row_segment_id :: string
  row_date :: "date option"
  row_value :: "rat option"
  row_is_target :: bool

text \<open>
  The \<open>for item in values\<close> loop of \<open>calculate_ytd\<close>, with \<open>total\<close> as the accumulator
  \<open>tot\<close>; \<open>total += Decimal(str(value))\<close> is an addition of the context.
\<close>

fun ytd_loop :: "date \<Rightarrow> date \<Rightarrow> bool \<Rightarrow> kpi_row list \<Rightarrow> rat \<Rightarrow> py_error + rat" where
  "ytd_loop start_date target_date is_target [] tot = Inr tot"
| "ytd_loop start_date target_date is_target (item # rest) tot =
     (if row_is_target item \<noteq> is_target then ytd_loop start_date target_date is_target rest tot
      else (case row_date item of
              None \<Rightarrow> ytd_loop start_date target_date is_target rest tot
            | Some item_date \<Rightarrow>
                (if date_le start_date item_date \<and> date_le item_date target_date then
                   (case row_value item of
                      None \<Rightarrow> ytd_loop start_date target_date is_target rest tot
                    | Some v \<Rightarrow>
                        (case dec_add tot v of
                           Inl e \<Rightarrow> Inl e
                         | Inr tot' \<Rightarrow> ytd_loop start_date target_date is_target rest tot'))
                 else ytd_loop start_date target_date is_target rest tot)))"

definition calculate_ytd :: "kpi_row list \<Rightarrow> date \<Rightarrow> bool \<Rightarrow> py_error + rat" where
  "calculate_ytd values target_date is_target =
     (let fiscal_year = get_fiscal_year target_date 9 in
      case get_fiscal_year_range fiscal_year 9 of
        Inl e \<Rightarrow> Inl e
      | Inr (start_date, _) \<Rightarrow> ytd_loop start_date target_date is_target values 0)"

text \<open>
  The rows the year-to-date sum ranges over, and the operation as the specification words
  it: the sum of the matching rows of the window, absent when there is none.
\<close>

definition in_ytd_window :: "date \<Rightarrow> bool \<Rightarrow> kpi_row \<Rightarrow> bool" where
  "in_ytd_window as_of is_target r =
     (row_is_target r = is_target \<and>
      (case row_date r of
         None \<Rightarrow> False
       | Some d \<Rightarrow> date_le (Date (get_fiscal_year as_of 9) 9 1) d \<and> date_le d as_of))"

definition value_or_zero :: "kpi_row \<Rightarrow> rat" where
  "value_or_zero r = (case row_value r of None \<Rightarrow> 0 | Some v \<Rightarrow> v)"

definition yearToDate_spec :: "kpi_row list \<Rightarrow> date \<Rightarrow> bool \<Rightarrow> rat option" where
  "yearToDate_spec rows as_of is_target =
     (let matching = filter (in_ytd_window as_of is_target) rows in
      if matching = [] then None else Some (sum_list (map value_or_zero matching)))"

text \<open>
  For the statement of the aggregation: the non-null values of a list of rows, in order,
  and their running sum in the arithmetic of the context.
\<close>

fun present_values :: "kpi_row list \<Rightarrow> rat list" where
  "present_values [] = []"
| "present_values (r # rs) =
     (case row_value r of None \<Rightarrow> present_values rs | Some v \<Rightarrow> v # present_values rs)"

fun dec_sum :: "rat \<Rightarrow> rat list \<Rightarrow> py_error + rat" where
  "dec_sum tot [] = Inr tot"
| "dec_sum tot (v # vs) = (case dec_add tot v of Inl e \<Rightarrow> Inl e | Inr tot' \<Rightarrow> dec_sum tot' vs)"

section \<open>Department summary (app/services/kpi_service.py)\<close>


text \<open>An entry of \<open>kpis\<close>; the numeric fields are Python floats or \<open>None\<close>.\<close>

record kpi_summary =
  name :: string
  unit :: string
  category :: string
  actual :: "pyfloat option"
  target :: "pyfloat option"
  ytd_actual :: "pyfloat option"
  ytd_target :: "pyfloat option"
  achievement_rate :: "pyfloat option"
  yoy_rate :: "pyfloat option"
  alert_level :: string








section \<open>Target upsert (app/services/target_service.py)\<close>

text \<open>
  The \<open>data\<close> dictionary written by \<open>create_target_value\<close>, and a stored row of
  \<open>kpi_values\<close>: the data with the row id the table gave it.
\<close>

record target_data =
  data_segment_id :: string
  data_kpi_id :: string
  data_date :: date
  data_value :: rat
  data_is_target :: bool

record fact_row =
  fact_id :: int
  fact_data :: target_data

text \<open>
  The three calls \<open>create_target_value\<close> makes on the Supabase client, over a state
  \<open>'s\<close> of the persistence service. Each returns the new state and either the exception
  it raised or \<open>response.data\<close>:
  \<^item> \<open>select_ids s segment_id kpi_id date\<close> is
    \<open>table("kpi_values").select("id").eq(...).eq("is_target", True).execute()\<close>;
  \<^item> \<open>update_by_id s id data\<close> is \<open>table("kpi_values").update(data).eq("id", id).execute()\<close>;
  \<^item> \<open>insert_row s data\<close> is \<open>table("kpi_values").insert(data).execute()\<close>.
\<close>

record 's client =
  select_ids :: "'s \<Rightarrow> string \<Rightarrow> string \<Rightarrow> date \<Rightarrow> 's \<times> (py_error + int list)"
  update_by_id :: "'s \<Rightarrow> int \<Rightarrow> target_data \<Rightarrow> 's \<times> (py_error + fact_row list)"
  insert_row :: "'s \<Rightarrow> target_data \<Rightarrow> 's \<times> (py_error + fact_row list)"

record upsert_result =
  result_id :: int
  is_created :: bool

definition finish_upsert :: "bool \<Rightarrow> 's \<times> (py_error + fact_row list) \<Rightarrow> 's \<times> (py_error + upsert_result)" where
  \<comment> \<open>Lines 82-88: an empty \<open>response.data\<close> raises, otherwise the id of its first row.\<close>
  "finish_upsert created resp =
     (case resp of
        (s, Inl e) \<Rightarrow> (s, Inl e)
      | (s, Inr []) \<Rightarrow> (s, Inl RegistrationFailed)
      | (s, Inr (r # rs)) \<Rightarrow> (s, Inr \<lparr> result_id = fact_id r, is_created = created \<rparr>))"

definition create_target_value ::
  "'s client \<Rightarrow> 's \<Rightarrow> string \<Rightarrow> string \<Rightarrow> date \<Rightarrow> rat \<Rightarrow> 's \<times> (py_error + upsert_result)" where
  "create_target_value supabase s segment_id kpi_id month0 val =
     (case normalize_to_month_start month0 of
        Inl e \<Rightarrow> (s, Inl e)
      | Inr month' \<Rightarrow>
          (case select_ids supabase s segment_id kpi_id month' of
             (s1, Inl e) \<Rightarrow> (s1, Inl e)
           | (s1, Inr existing) \<Rightarrow>
               (let data = \<lparr> data_segment_id = segment_id, data_kpi_id = kpi_id,
                              data_date = month', data_value = val, data_is_target = True \<rparr>
                in case existing of
                     i # _ \<Rightarrow> finish_upsert False (update_by_id supabase s1 i data)
                   | [] \<Rightarrow> finish_upsert True (insert_row supabase s1 data))))"

record target_input =
  t_segment_id :: string
  t_kpi_id :: string
  t_month :: date
  t_value :: rat

text \<open>
  The report of \<open>bulk_upsert_targets\<close>. An entry of \<open>errors\<close> is the formatted message
  of the source, kept as its three parts: segment id, KPI id and the exception.
\<close>

record bulk_result =
  created_count :: nat
  updated_count :: nat
  errors :: "(string \<times> string \<times> py_error) list"

fun bulk_loop :: "'s client \<Rightarrow> target_input list \<Rightarrow> 's \<Rightarrow> bulk_result \<Rightarrow> 's \<times> bulk_result" where
  "bulk_loop supabase [] s result = (s, result)"
| "bulk_loop supabase (t # ts) s result =
     (case create_target_value supabase s (t_segment_id t) (t_kpi_id t) (t_month t) (t_value t) of
        (s', Inr res) \<Rightarrow>
          (if is_created res
           then bulk_loop supabase ts s' (result\<lparr>created_count := created_count result + 1\<rparr>)
           else bulk_loop supabase ts s' (result\<lparr>updated_count := updated_count result + 1\<rparr>))
      | (s', Inl e) \<Rightarrow>
          bulk_loop supabase ts s'
            (result\<lparr>errors := errors result @ [(t_segment_id t, t_kpi_id t, e)]\<rparr>))"

definition bulk_upsert_targets :: "'s client \<Rightarrow> 's \<Rightarrow> target_input list \<Rightarrow> 's \<times> bulk_result" where
  "bulk_upsert_targets supabase s targets =
     bulk_loop supabase targets s \<lparr> created_count = 0, updated_count = 0, errors = [] \<rparr>"

text \<open>
  Modelled from the spec: the fact persistence service (the Supabase table \<open>kpi_values\<close>),
  which is not part of the repository. It is a list of rows and the next free row id: a
  query returns the rows that match its filters, an update replaces the data of the rows
  with the given id and returns them, an insert appends the row under a fresh id and
  returns it.
\<close>

record table =
  facts :: "fact_row list"
  next_id :: int

definition identity_of :: "target_data \<Rightarrow> string \<times> string \<times> date \<times> bool" where
  "identity_of d = (data_segment_id d, data_kpi_id d, data_date d, data_is_target d)"

definition mem_select :: "table \<Rightarrow> string \<Rightarrow> string \<Rightarrow> date \<Rightarrow> table \<times> (py_error + int list)" where
  "mem_select t segment_id kpi_id d =
     (t, Inr (map fact_id
                (filter (\<lambda>r. identity_of (fact_data r) = (segment_id, kpi_id, d, True)) (facts t))))"

definition mem_update :: "table \<Rightarrow> int \<Rightarrow> target_data \<Rightarrow> table \<times> (py_error + fact_row list)" where
  "mem_update t i data =
     (let rows' = map (\<lambda>r. if fact_id r = i then r\<lparr>fact_data := data\<rparr> else r) (facts t)
      in (t\<lparr>facts := rows'\<rparr>, Inr (filter (\<lambda>r. fact_id r = i) rows')))"

definition mem_insert :: "table \<Rightarrow> target_data \<Rightarrow> table \<times> (py_error + fact_row list)" where
  "mem_insert t data =
     (let r = \<lparr> fact_id = next_id t, fact_data = data \<rparr>
      in (t\<lparr>facts := facts t @ [r], next_id := next_id t + 1\<rparr>, Inr [r]))"

definition mem_client :: "table client" where
  "mem_client = \<lparr> select_ids = mem_select, update_by_id = mem_update, insert_row = mem_insert \<rparr>"

text \<open>
  The invariants of the table: row ids are unique and below the next free id (primary key),
  and there is at most one row per composite identity.
\<close>

definition table_inv :: "table \<Rightarrow> bool" where
  "table_inv t = (distinct (map fact_id (facts t))
     \<and> list_all (\<lambda>r. fact_id r < next_id t) (facts t)
     \<and> distinct (map (identity_of \<circ> fact_data) (facts t)))"

definition rows_with :: "table \<Rightarrow> string \<times> string \<times> date \<times> bool \<Rightarrow> fact_row list" where
  "rows_with t k = filter (\<lambda>r. identity_of (fact_data r) = k) (facts t)"

text \<open>
  A persistence service with a foreign-key check, used to exercise per-row failures: its
  insert raises for one segment id and behaves as the table otherwise.
\<close>

definition rejecting_client :: "string \<Rightarrow> table client" where
  "rejecting_client unknown_segment =
     mem_client\<lparr>insert_row := (\<lambda>t d. if data_segment_id d = unknown_segment
                                  then (t, Inl (ClientError ''foreign key violation''))
                                  else mem_insert t d)\<rparr>"


section \<open>Auxiliary facts\<close>

declare months_loop.simps [simp del]

declare adj_down.simps [simp del] adj_up.simps [simp del]

lemma mk_date_first:
  "1 \<le> y \<Longrightarrow> y \<le> 9999 \<Longrightarrow> 1 \<le> m \<Longrightarrow> m \<le> 12 \<Longrightarrow> mk_date y m 1 = Inr (Date y m 1)"
  by (simp add: mk_date_def c_int_def valid_date_def days_in_month_def mdays_def)

lemma fiscal_range_ok:
  "1 \<le> Y \<Longrightarrow> Y \<le> 9998 \<Longrightarrow>
   get_fiscal_year_range Y 9 = Inr (Date Y 9 1, Date (Y + 1) 8 31)"
  by (simp add: get_fiscal_year_range_def monthrange_days_def days_in_month_def mdays_def
        mk_date_def c_int_def valid_date_def)

lemma months_loop_same_year:
  "date_le (Date y m 1) e \<Longrightarrow> m \<noteq> 12 \<Longrightarrow> 1 \<le> y \<Longrightarrow> y \<le> 9999 \<Longrightarrow> 0 \<le> m \<Longrightarrow> m \<le> 11 \<Longrightarrow>
   months_loop (Date y m 1) e ms = months_loop (Date y (m + 1) 1) e (ms @ [Date y m 1])"
  by (subst months_loop.simps) (simp add: mk_date_first)

lemma months_loop_december:
  "date_le (Date y 12 1) e \<Longrightarrow> 0 \<le> y \<Longrightarrow> y \<le> 9998 \<Longrightarrow>
   months_loop (Date y 12 1) e ms = months_loop (Date (y + 1) 1 1) e (ms @ [Date y 12 1])"
  by (subst months_loop.simps) (simp add: mk_date_first)

lemma months_loop_stop: "\<not> date_le c e \<Longrightarrow> months_loop c e ms = Inr ms"
  by (subst months_loop.simps) simp

subsection \<open>The adjusted exponent and the context rounding\<close>

lemma adj_down_bounds:
  "2 \<le> b \<Longrightarrow> 1 \<le> a \<Longrightarrow>
   k \<le> adj_down b a k
   \<and> of_nat b powi (adj_down b a k - k) \<le> a
   \<and> a < of_nat b powi (adj_down b a k - k + 1)"
proof (induction b a k rule: adj_down.induct)
  case (1 b a k)
  have b0: "(of_nat b :: rat) \<noteq> 0" "(0::rat) < of_nat b" using 1(2) by simp_all
  show ?case
  proof (cases "of_nat b \<le> a")
    case True
    then have c: "2 \<le> b \<and> of_nat b \<le> a" using 1(2) by simp
    have a1: "1 \<le> a / of_nat b" using True b0 by (simp add: field_simps)
    note IH = 1(1)[OF c 1(2) a1]
    have e: "adj_down b a k = adj_down b (a / of_nat b) (k + 1)"
      using c by (subst adj_down.simps) simp
    define r where "r = adj_down b (a / of_nat b) (k + 1)"
    have i1: "k + 1 \<le> r" and i2: "of_nat b powi (r - (k + 1)) \<le> a / of_nat b"
      and i3: "a / of_nat b < of_nat b powi (r - (k + 1) + 1)"
      using IH unfolding r_def by simp_all
    have p1: "of_nat b powi (r - k) = of_nat b powi (r - (k + 1)) * (of_nat b :: rat)"
      using power_int_add_1[of "of_nat b :: rat" "r - (k + 1)"] b0 by simp
    have p2: "of_nat b powi (r - k + 1) = of_nat b powi (r - (k + 1) + 1) * (of_nat b :: rat)"
      using power_int_add_1[of "of_nat b :: rat" "r - (k + 1) + 1"] b0 by (simp add: algebra_simps)
    have "of_nat b powi (r - k) \<le> a"
      unfolding p1 using i2 b0 by (simp add: field_simps)
    moreover have "a < of_nat b powi (r - k + 1)"
      unfolding p2 using i3 b0 by (simp add: field_simps)
    ultimately show ?thesis
      unfolding e r_def[symmetric] using i1 by simp
  next
    case False
    then have e: "adj_down b a k = k"
      by (subst adj_down.simps) simp
    show ?thesis
      unfolding e using False 1(3) by simp
  qed
qed

lemma adj_up_bounds:
  "2 \<le> b \<Longrightarrow> 0 < a \<Longrightarrow> a < of_nat b \<Longrightarrow>
   adj_up b a k \<le> k
   \<and> of_nat b powi (adj_up b a k - k) \<le> a
   \<and> a < of_nat b powi (adj_up b a k - k + 1)"
proof (induction b a k rule: adj_up.induct)
  case (1 b a k)
  have b0: "(of_nat b :: rat) \<noteq> 0" "(0::rat) < of_nat b" using 1(2) by simp_all
  show ?case
  proof (cases "a < 1")
    case True
    then have c: "2 \<le> b \<and> 0 < a \<and> a < 1" using 1(2,3) by simp
    have a1: "0 < a * of_nat b" "a * of_nat b < of_nat b" using True 1(3) b0 by simp_all
    note IH = 1(1)[OF c 1(2) a1]
    have e: "adj_up b a k = adj_up b (a * of_nat b) (k - 1)"
      using c by (subst adj_up.simps) simp
    define r where "r = adj_up b (a * of_nat b) (k - 1)"
    have i1: "r \<le> k - 1" and i2: "of_nat b powi (r - (k - 1)) \<le> a * of_nat b"
      and i3: "a * of_nat b < of_nat b powi (r - (k - 1) + 1)"
      using IH unfolding r_def by simp_all
    have p1: "of_nat b powi (r - (k - 1)) = of_nat b powi (r - k) * (of_nat b :: rat)"
      using power_int_add_1[of "of_nat b :: rat" "r - k"] b0 by (simp add: algebra_simps)
    have p2: "of_nat b powi (r - (k - 1) + 1) = of_nat b powi (r - k + 1) * (of_nat b :: rat)"
      using power_int_add_1[of "of_nat b :: rat" "r - k + 1"] b0 by (simp add: algebra_simps)
    have "of_nat b powi (r - k) \<le> a"
      using i2 b0 unfolding p1 by simp
    moreover have "a < of_nat b powi (r - k + 1)"
      using i3 b0 unfolding p2 by simp
    ultimately show ?thesis
      unfolding e r_def[symmetric] using i1 by simp
  next
    case False
    then have e: "adj_up b a k = k"
      by (subst adj_up.simps) simp
    show ?thesis
      unfolding e using False 1(4) by simp
  qed
qed

lemma adjusted_bounds:
  assumes "2 \<le> b" and "0 < a"
  shows "of_nat b powi (adjusted b a) \<le> a" and "a < of_nat b powi (adjusted b a + 1)"
proof -
  have "of_nat b powi (adjusted b a) \<le> a \<and> a < of_nat b powi (adjusted b a + 1)"
  proof (cases "1 \<le> a")
    case True
    then show ?thesis
      using adj_down_bounds[OF assms(1) True, of 0] by (simp add: adjusted_def)
  next
    case False
    have "(1::rat) \<le> of_nat b" using assms(1) by simp
    then have "a < of_nat b" using False by linarith
    then show ?thesis
      using adj_up_bounds[OF assms(1,2), of 0] False by (simp add: adjusted_def)
  qed
  then show "of_nat b powi (adjusted b a) \<le> a" and "a < of_nat b powi (adjusted b a + 1)"
    by simp_all
qed

lemma adjusted_less:
  assumes "0 < a" and "a < 10 powi n"
  shows "adjusted 10 a < n"
proof -
  have "(10::rat) powi (adjusted 10 a) \<le> a"
    using adjusted_bounds(1)[of 10 a] assms(1) by simp
  then have "(10::rat) powi (adjusted 10 a) < 10 powi n"
    using assms(2) by linarith
  then show ?thesis
    by (metis not_less power_int_increasing one_le_numeral)
qed

lemma round_half_even_near: "\<bar>of_int (round_half_even z) - z\<bar> \<le> 1 / 2"
proof -
  have "of_int \<lfloor>z\<rfloor> \<le> z" "z < of_int \<lfloor>z\<rfloor> + 1"
    using floor_correct[of z] by simp_all
  then show ?thesis
    unfolding round_half_even_def Let_def by (simp add: abs_le_iff)
qed

lemma round_half_even_of_int: "round_half_even (of_int n) = n"
  by (simp add: round_half_even_def)

lemma dec_fix_cases:
  assumes "x \<noteq> 0"
  obtains k q c where "k = adjusted 10 \<bar>x\<bar>" "q = max (k - 27) dec_etiny"
    "c = round_half_even (\<bar>x\<bar> / 10 powi q)"
    "dec_fix x = (if 999999 < (if 10 ^ 28 \<le> c then k + 1 else k) then Inl Overflow
                  else Inr (sgn x * of_int c * 10 powi q))"
  using assms by (simp add: dec_fix_def Let_def)

lemma dec_fix_error: "dec_fix x = Inl e \<Longrightarrow> e = Overflow"
  by (simp add: dec_fix_def Let_def split: if_splits)

lemma dec_fix_near:
  assumes "dec_fix x = Inr y"
  shows "\<bar>y - x\<bar> \<le> \<bar>x\<bar> / (2 * 10 ^ 27) + 1 / 10 ^ 100"
proof (cases "x = 0")
  case True
  then show ?thesis using assms by (simp add: dec_fix_def)
next
  case False
  then have a0: "0 < \<bar>x\<bar>" by simp
  from dec_fix_cases[OF False] obtain k q c where
    k: "k = adjusted 10 \<bar>x\<bar>" and q: "q = max (k - 27) dec_etiny"
    and c: "c = round_half_even (\<bar>x\<bar> / 10 powi q)"
    and f: "dec_fix x = (if 999999 < (if 10 ^ 28 \<le> c then k + 1 else k) then Inl Overflow
                  else Inr (sgn x * of_int c * 10 powi q))"
    by blast
  define P :: rat where "P = 10 powi q"
  have P0: "0 < P" by (simp add: P_def)
  have y: "y = sgn x * of_int c * P"
    using assms f unfolding P_def by (simp split: if_splits)
  have "sgn x * (of_int c * P - \<bar>x\<bar>) = y - x"
    unfolding y by (simp add: right_diff_distrib sgn_mult_abs mult.assoc)
  then have "y - x = sgn x * (of_int c * P - \<bar>x\<bar>)" by simp
  then have "\<bar>y - x\<bar> = \<bar>of_int c * P - \<bar>x\<bar>\<bar>"
    using False by (simp add: abs_mult abs_sgn_eq)
  also have "\<dots> = P * \<bar>of_int c - \<bar>x\<bar> / P\<bar>"
  proof -
    have "of_int c * P - \<bar>x\<bar> = P * (of_int c - \<bar>x\<bar> / P)"
      using P0 by (simp add: field_simps)
    then show ?thesis using P0 by (simp add: abs_mult)
  qed
  also have "\<dots> \<le> P * (1 / 2)"
    using round_half_even_near[of "\<bar>x\<bar> / P"] P0 unfolding c P_def
    by (intro mult_left_mono) simp_all
  finally have b: "\<bar>y - x\<bar> \<le> P / 2" by simp
  have lo: "(10::rat) powi k \<le> \<bar>x\<bar>"
    using adjusted_bounds(1)[of 10 "\<bar>x\<bar>"] a0 unfolding k by simp
  have "P \<le> \<bar>x\<bar> / 10 ^ 27 + 2 / 10 ^ 100"
  proof (cases "dec_etiny \<le> k - 27")
    case True
    then have "q = k - 27" using q by simp
    then have "P = 10 powi k / 10 ^ 27"
      unfolding P_def by (simp add: power_int_diff)
    then show ?thesis using lo by (simp add: field_simps)
  next
    case False
    then have "q = dec_etiny" using q by simp
    then have "P = 10 powi dec_etiny" by (simp add: P_def)
    also have "(10::rat) powi dec_etiny \<le> 10 powi (- 100)"
      by (rule power_int_increasing) (simp_all add: dec_etiny_def)
    also have "(10::rat) powi (- 100) = 1 / 10 ^ 100"
      by (simp add: power_int_minus_divide)
    finally have "P \<le> 0 + 1 / 10 ^ 100" by simp
    also have "\<dots> \<le> \<bar>x\<bar> / 10 ^ 27 + 2 / 10 ^ 100"
      by (intro add_mono) simp_all
    finally show ?thesis .
  qed
  then show ?thesis using b by (simp add: field_simps)
qed

lemma dec_fix_near_numeral:
  assumes "dec_fix x = Inr y"
  shows "\<bar>y - x\<bar> \<le> \<bar>x\<bar> / 2000000000000000000000000000 + 1 / 10 ^ 100"
  using dec_fix_near[OF assms] by simp

lemma dec_fix_returns:
  assumes "\<bar>x\<bar> < 10 powi n" and "n \<le> 999999"
  shows "\<exists>y. dec_fix x = Inr y"
proof (cases "x = 0")
  case True
  then show ?thesis by (simp add: dec_fix_def)
next
  case False
  from dec_fix_cases[OF False] obtain k q c where
    k: "k = adjusted 10 \<bar>x\<bar>"
    and f: "dec_fix x = (if 999999 < (if 10 ^ 28 \<le> c then k + 1 else k) then Inl Overflow
                  else Inr (sgn x * of_int c * 10 powi q))"
    by blast
  have "k < n"
    unfolding k using False assms(1) by (intro adjusted_less) simp_all
  then have "\<not> 999999 < (if 10 ^ 28 \<le> c then k + 1 else k)"
    using assms(2) by simp
  then show ?thesis
    unfolding f by simp
qed

lemma dec_fix_exact:
  fixes m :: int and d :: nat
  assumes "\<bar>m\<bar> < 10 ^ 28" and "d \<le> 999999"
  shows "dec_fix (of_int m / 10 ^ d) = Inr (of_int m / 10 ^ d)"
proof (cases "m = 0")
  case True
  then show ?thesis by (simp add: dec_fix_def)
next
  case False
  define x :: rat where "x = of_int m / 10 ^ d"
  have x0: "x \<noteq> 0" using False by (simp add: x_def)
  have ax: "\<bar>x\<bar> = of_int \<bar>m\<bar> * 10 powi (- int d)"
    by (simp add: x_def power_int_minus_divide abs_divide)
  from dec_fix_cases[OF x0] obtain k q c where
    k: "k = adjusted 10 \<bar>x\<bar>" and q: "q = max (k - 27) dec_etiny"
    and c: "c = round_half_even (\<bar>x\<bar> / 10 powi q)"
    and f: "dec_fix x = (if 999999 < (if 10 ^ 28 \<le> c then k + 1 else k) then Inl Overflow
                  else Inr (sgn x * of_int c * 10 powi q))"
    by blast
  have a0: "0 < \<bar>x\<bar>" using x0 by simp
  have lo: "(10::rat) powi k \<le> \<bar>x\<bar>" and hi: "\<bar>x\<bar> < 10 powi (k + 1)"
    using adjusted_bounds[of 10 "\<bar>x\<bar>"] a0 unfolding k by simp_all
  have m1: "(1::rat) \<le> of_int \<bar>m\<bar>" using False by (simp add: of_int_1_le_iff)
  have m2: "(of_int \<bar>m\<bar> :: rat) < 10 ^ 28"
    using assms(1) by (metis of_int_less_iff of_int_numeral of_int_power)
  have "1 * (10::rat) powi (- int d) \<le> of_int \<bar>m\<bar> * 10 powi (- int d)"
    using m1 by (intro mult_right_mono) simp_all
  then have "(10::rat) powi (- int d) \<le> \<bar>x\<bar>"
    unfolding ax by simp
  then have "(10::rat) powi (- int d) < 10 powi (k + 1)" using hi by linarith
  then have k1: "- int d < k + 1"
    by (metis not_less power_int_increasing one_le_numeral)
  have "\<bar>x\<bar> < 10 ^ 28 * 10 powi (- int d)"
    unfolding ax using m2 by (intro mult_strict_right_mono) simp_all
  also have "\<dots> = 10 powi (28 - int d)"
    by (simp add: power_int_diff power_int_minus_divide)
  finally have "(10::rat) powi k < 10 powi (28 - int d)" using lo by linarith
  then have k2: "k < 28 - int d"
    by (metis not_less power_int_increasing one_le_numeral)
  have qe: "q = k - 27"
    using q k1 assms(2) by (simp add: dec_etiny_def max_def)
  define n where "n = nat (- int d - q)"
  have n: "int n = - int d - q" using k2 qe by (simp add: n_def)
  have "\<bar>x\<bar> / 10 powi q = of_int \<bar>m\<bar> * 10 powi (- int d - q)"
    unfolding ax by (simp add: power_int_diff)
  also have "\<dots> = of_int (\<bar>m\<bar> * 10 ^ n)"
    unfolding n[symmetric] by simp
  finally have sc: "\<bar>x\<bar> / 10 powi q = of_int (\<bar>m\<bar> * 10 ^ n)" .
  have ce: "c = \<bar>m\<bar> * 10 ^ n"
    unfolding c sc by (rule round_half_even_of_int)
  have "\<bar>x\<bar> / 10 powi q < 10 powi (k + 1) / 10 powi q"
    using hi by (simp add: divide_strict_right_mono)
  also have "\<dots> = 10 ^ 28"
    unfolding qe by (simp flip: power_int_diff)
  finally have "(of_int c :: rat) < 10 ^ 28" unfolding sc ce .
  then have c28: "c < 10 ^ 28"
    by (metis of_int_less_iff of_int_numeral of_int_power)
  have kk: "\<not> 999999 < k" using k2 by simp
  have "dec_fix x = Inr (sgn x * of_int c * 10 powi q)"
    unfolding f using c28 kk by simp
  also have "sgn x * of_int c * 10 powi q = sgn x * (\<bar>x\<bar> / 10 powi q * 10 powi q)"
    unfolding sc ce by simp
  also have "\<dots> = x"
    by (simp add: abs_sgn mult.commute)
  finally show ?thesis unfolding x_def .
qed

lemma dec_fix_exact_ints:
  fixes x :: rat and d :: nat
  assumes "x * 10 ^ d \<in> \<int>" and "\<bar>x\<bar> * 10 ^ d < 10 ^ 28" and "d \<le> 999999"
  shows "dec_fix x = Inr x"
proof -
  from assms(1) obtain m :: int where m: "x * 10 ^ d = of_int m"
    by (rule Ints_cases)
  then have x: "x = of_int m / 10 ^ d"
    by (simp add: field_simps)
  have "\<bar>x\<bar> * 10 ^ d = \<bar>x * 10 ^ d\<bar>"
    by (simp add: abs_mult)
  also have "\<dots> = rat_of_int \<bar>m\<bar>"
    unfolding m by simp
  finally have "rat_of_int \<bar>m\<bar> < rat_of_int (10 ^ 28)"
    using assms(2) by simp
  then have "\<bar>m\<bar> < 10 ^ 28"
    by (simp only: of_int_less_iff)
  then show ?thesis
    unfolding x using assms(3) by (rule dec_fix_exact)
qed

lemma floor_rat_numeral:
  "\<lfloor>(numeral a :: rat) / numeral b\<rfloor> = numeral a div numeral b"
  "\<lfloor>(1 :: rat) / numeral b\<rfloor> = 1 div numeral b"
  using floor_divide_of_int_eq[of "numeral a" "numeral b", where ?'a = rat]
    floor_divide_of_int_eq[of 1 "numeral b", where ?'a = rat]
  by simp_all

lemmas dec_eval = dec_fix_def dec_etiny_def adjusted_def adj_down.simps adj_up.simps
  round_half_even_def round_half_up_def quantize_2dp_def dec_add_def dec_sub_def dec_mul_def
  dec_div_def Let_def floor_rat_numeral

subsection \<open>Rounding to two decimal places\<close>

lemma floor_half_near: "\<bar>rat_of_int \<lfloor>w + 1 / 2\<rfloor> - w\<bar> \<le> 1 / 2"
proof -
  have "of_int \<lfloor>w + 1 / 2\<rfloor> \<le> w + 1 / 2" "w + 1 / 2 < of_int \<lfloor>w + 1 / 2\<rfloor> + 1"
    using floor_correct[of "w + 1 / 2"] by simp_all
  then show ?thesis by linarith
qed

lemma round_half_up_near: "\<bar>of_int (round_half_up z) - z\<bar> \<le> 1 / 2"
proof (cases "0 \<le> z")
  case True
  then show ?thesis using floor_half_near[of z] by (simp add: round_half_up_def)
next
  case False
  have "\<bar>rat_of_int \<lfloor>- z + 1 / 2\<rfloor> - (- z)\<bar> \<le> 1 / 2"
    by (rule floor_half_near)
  then have "\<bar>- rat_of_int \<lfloor>- z + 1 / 2\<rfloor> - z\<bar> \<le> 1 / 2"
    by linarith
  then show ?thesis using False by (simp add: round_half_up_def)
qed

lemma round_half_up_tie:
  assumes "\<bar>of_int (round_half_up z) - z\<bar> = 1 / 2"
  shows "\<bar>z\<bar> < \<bar>of_int (round_half_up z)\<bar>"
proof (cases "0 \<le> z")
  case True
  define n where "n = \<lfloor>z + 1 / 2\<rfloor>"
  have f: "of_int n \<le> z + 1 / 2" "z + 1 / 2 < of_int n + 1"
    unfolding n_def using floor_correct[of "z + 1 / 2"] by simp_all
  have r: "round_half_up z = n" using True by (simp add: round_half_up_def n_def)
  show ?thesis
    using assms f True unfolding r by linarith
next
  case False
  define n where "n = \<lfloor>- z + 1 / 2\<rfloor>"
  have f: "of_int n \<le> - z + 1 / 2" "- z + 1 / 2 < of_int n + 1"
    unfolding n_def using floor_correct[of "- z + 1 / 2"] by simp_all
  have r: "round_half_up z = - n" using False by (simp add: round_half_up_def n_def)
  have "\<bar>- of_int n - z\<bar> = 1 / 2"
    using assms unfolding r by simp
  then show ?thesis
    using f False unfolding r of_int_minus by linarith
qed

lemma quantize_2dp_result:
  assumes "quantize_2dp p = Inr z"
  shows "z = of_int (round_half_up (p * 100)) / 100" and "\<bar>z - p\<bar> \<le> 1 / 200"
proof -
  show z: "z = of_int (round_half_up (p * 100)) / 100"
    using assms by (simp add: quantize_2dp_def Let_def split: if_splits)
  have "\<bar>of_int (round_half_up (p * 100)) - p * 100\<bar> \<le> 1 / 2"
    by (rule round_half_up_near)
  then show "\<bar>z - p\<bar> \<le> 1 / 200"
    unfolding z by (simp add: field_simps abs_le_iff)
qed

lemma quantize_2dp_error: "quantize_2dp p = Inl e \<Longrightarrow> e = InvalidOperation"
  by (simp add: quantize_2dp_def Let_def split: if_splits)

subsection \<open>The achievement rate\<close>

lemma achievement_rate_accuracy:
  assumes t: "t \<noteq> 0"
    and r: "calculate_achievement_rate (Some x) (Some t) = Inr r"
  shows "\<exists>z q p. r = Some z \<and> dec_div x t = Inr q \<and> dec_mul q 100 = Inr p
           \<and> z = of_int (round_half_up (p * 100)) / 100
           \<and> \<bar>z - x / t * 100\<bar> \<le> 1 / 200 + \<bar>x / t * 100\<bar> / 10 ^ 26 + 1 / 10 ^ 90"
proof -
  from r t obtain q where q: "dec_div x t = Inr q"
    by (cases "dec_div x t") (simp_all add: calculate_achievement_rate_def)
  from r t q obtain p where p: "dec_mul q 100 = Inr p"
    by (cases "dec_mul q 100") (simp_all add: calculate_achievement_rate_def)
  from r t q p obtain z where z: "quantize_2dp p = Inr z" and rz: "r = Some z"
    by (cases "quantize_2dp p") (auto simp: calculate_achievement_rate_def)
  define e where "e = x / t"
  have 1: "\<bar>q - e\<bar> \<le> \<bar>e\<bar> / 2000000000000000000000000000 + 1 / 10 ^ 100"
    using q t dec_fix_near_numeral[of "x / t" q] by (simp add: dec_div_def e_def)
  have 2: "\<bar>p - q * 100\<bar> \<le> \<bar>q * 100\<bar> / 2000000000000000000000000000 + 1 / 10 ^ 100"
    using p dec_fix_near_numeral[of "q * 100" p] by (simp add: dec_mul_def)
  have 3: "\<bar>z - p\<bar> \<le> 1 / 200"
    using quantize_2dp_result(2)[OF z] .
  define A B C D Q where "A = \<bar>e\<bar>" and "B = \<bar>q - e\<bar>" and "C = \<bar>p - q * 100\<bar>"
    and "D = \<bar>z - p\<bar>" and "Q = \<bar>q\<bar>"
  have 4: "\<bar>q * 100\<bar> = Q * 100" by (simp add: abs_mult Q_def)
  have 5: "\<bar>e * 100\<bar> = A * 100" by (simp add: abs_mult A_def)
  have 6: "Q \<le> A + B"
    unfolding Q_def A_def B_def using abs_triangle_ineq[of e "q - e"] by simp
  have d: "z - p \<le> D" "- (z - p) \<le> D"
    and c: "p - q * 100 \<le> C" "- (p - q * 100) \<le> C"
    and b: "q - e \<le> B" "- (q - e) \<le> B"
    unfolding D_def C_def B_def by (simp_all only: abs_ge_self abs_ge_minus_self)
  have 7: "\<bar>z - e * 100\<bar> \<le> D + C + 100 * B"
    unfolding abs_le_iff using d c b by linarith
  have h0: "0 \<le> A" by (simp add: A_def)
  have h1: "B \<le> A / 2000000000000000000000000000 + 1 / 10 ^ 100"
    using 1 unfolding A_def B_def .
  have h2: "C \<le> Q * 100 / 2000000000000000000000000000 + 1 / 10 ^ 100"
    using 2 unfolding 4 C_def .
  have h3: "D \<le> 1 / 200"
    using 3 unfolding D_def .
  have "D + C + 100 * B \<le> 1 / 200 + A * 100 / 10 ^ 26 + 1 / 10 ^ 90"
    using h0 h1 h2 h3 6 by simp
  then have "\<bar>z - e * 100\<bar> \<le> 1 / 200 + \<bar>e * 100\<bar> / 10 ^ 26 + 1 / 10 ^ 90"
    using 7 unfolding 5 by linarith
  then show ?thesis
    using rz q p quantize_2dp_result(1)[OF z] unfolding e_def by blast
qed

lemma achievement_rate_returns:
  assumes t: "t \<noteq> 0" and bound: "\<bar>x / t * 100\<bar> \<le> 10 ^ 26 - 1"
  shows "\<exists>z. calculate_achievement_rate (Some x) (Some t) = Inr (Some z)"
proof -
  define e where "e = x / t"
  define A where "A = \<bar>e\<bar>"
  have A0: "0 \<le> A" by (simp add: A_def)
  have A1: "A * 100 \<le> 10 ^ 26 - 1"
    using bound by (simp add: A_def e_def abs_mult)
  have "\<bar>e\<bar> < 10 powi 24"
    using A1 A0 unfolding A_def by simp
  then obtain q where q': "dec_fix e = Inr q"
    using dec_fix_returns[of e 24] by auto
  then have q: "dec_div x t = Inr q"
    using t by (simp add: dec_div_def e_def)
  define B Q where "B = \<bar>q - e\<bar>" and "Q = \<bar>q\<bar>"
  have B1: "B \<le> A / 2000000000000000000000000000 + 1 / 10 ^ 100"
    using dec_fix_near_numeral[OF q'] unfolding A_def B_def .
  have Q1: "Q \<le> A + B"
    unfolding Q_def A_def B_def using abs_triangle_ineq[of e "q - e"] by simp
  have "\<bar>q * 100\<bar> < 10 powi 27"
    using A1 A0 B1 Q1 by (simp add: abs_mult Q_def[symmetric])
  then obtain p where p': "dec_fix (q * 100) = Inr p"
    using dec_fix_returns[of "q * 100" 27] by auto
  then have p: "dec_mul q 100 = Inr p"
    by (simp add: dec_mul_def)
  define C P where "C = \<bar>p - q * 100\<bar>" and "P = \<bar>p\<bar>"
  have "C \<le> \<bar>q * 100\<bar> / 2000000000000000000000000000 + 1 / 10 ^ 100"
    using dec_fix_near_numeral[OF p'] unfolding C_def .
  then have C1: "C \<le> Q * 100 / 2000000000000000000000000000 + 1 / 10 ^ 100"
    by (simp add: abs_mult Q_def)
  have P1: "P \<le> Q * 100 + C"
    unfolding P_def C_def using abs_triangle_ineq[of "q * 100" "p - q * 100"]
    by (simp add: abs_mult Q_def)
  define c where "c = round_half_up (p * 100)"
  have "\<bar>of_int c - p * 100\<bar> \<le> 1 / 2"
    unfolding c_def by (rule round_half_up_near)
  then have "\<bar>rat_of_int c\<bar> \<le> \<bar>p * 100\<bar> + 1 / 2"
    using abs_triangle_ineq[of "p * 100" "of_int c - p * 100"] by simp
  then have "\<bar>rat_of_int c\<bar> \<le> P * 100 + 1 / 2"
    by (simp add: abs_mult P_def)
  then have "\<bar>rat_of_int c\<bar> < 10 ^ 28"
    using A1 A0 B1 Q1 C1 P1 by simp
  then have "rat_of_int \<bar>c\<bar> < rat_of_int (10 ^ 28)"
    by simp
  then have "\<bar>c\<bar> < 10 ^ 28"
    by (simp only: of_int_less_iff)
  then have "quantize_2dp p = Inr (of_int c / 100)"
    by (simp add: quantize_2dp_def c_def[symmetric])
  then have "calculate_achievement_rate (Some x) (Some t) = Inr (Some (of_int c / 100))"
    using t q p by (simp add: calculate_achievement_rate_def)
  then show ?thesis ..
qed

lemma achievement_rate_outcomes:
  assumes "t \<noteq> 0"
  shows "(\<exists>z. calculate_achievement_rate (Some x) (Some t) = Inr (Some z))
     \<or> calculate_achievement_rate (Some x) (Some t) = Inl InvalidOperation
     \<or> calculate_achievement_rate (Some x) (Some t) = Inl Overflow"
proof (cases "dec_div x t")
  case (Inl e)
  then have "e = Overflow"
    using assms dec_fix_error[of "x / t" e] by (simp add: dec_div_def)
  then show ?thesis
    using Inl assms by (simp add: calculate_achievement_rate_def)
next
  case q: (Inr q)
  show ?thesis
  proof (cases "dec_mul q 100")
    case (Inl e)
    then have "e = Overflow"
      using dec_fix_error[of "q * 100" e] by (simp add: dec_mul_def)
    then show ?thesis
      using Inl q assms by (simp add: calculate_achievement_rate_def)
  next
    case p: (Inr p)
    show ?thesis
    proof (cases "quantize_2dp p")
      case (Inl e)
      then have "e = InvalidOperation" by (rule quantize_2dp_error)
      then show ?thesis
        using Inl q p assms by (simp add: calculate_achievement_rate_def)
    next
      case (Inr z)
      then show ?thesis
        using q p assms by (simp add: calculate_achievement_rate_def)
    qed
  qed
qed

subsection \<open>The year-to-date loop\<close>

lemma present_values_sum: "sum_list (present_values rs) = sum_list (map value_or_zero rs)"
  by (induction rs) (simp_all add: value_or_zero_def split: option.splits)

lemma present_values_filter_empty: "rs = [] \<Longrightarrow> present_values rs = []"
  by simp

lemma ytd_loop_sum:
  "ytd_loop s d t rows acc = dec_sum acc (present_values
      (filter (\<lambda>r. row_is_target r = t \<and>
                 (case row_date r of None \<Rightarrow> False | Some x \<Rightarrow> date_le s x \<and> date_le x d)) rows))"
  by (induction rows arbitrary: acc) (auto split: option.splits sum.splits)

lemma calculate_ytd_sum:
  assumes "1 \<le> get_fiscal_year d 9" "get_fiscal_year d 9 \<le> 9998"
  shows "calculate_ytd rows d t = dec_sum 0 (present_values (filter (in_ytd_window d t) rows))"
proof -
  have w: "in_ytd_window d t = (\<lambda>r. row_is_target r = t \<and>
      (case row_date r of None \<Rightarrow> False
       | Some x \<Rightarrow> date_le (Date (get_fiscal_year d 9) 9 1) x \<and> date_le x d))"
    by (rule ext) (simp add: in_ytd_window_def)
  show ?thesis
    using assms by (simp add: calculate_ytd_def fiscal_range_ok ytd_loop_sum w)
qed

lemma dec_sum_exact:
  fixes dp :: nat
  assumes "\<forall>v \<in> set vs. v * 10 ^ dp \<in> \<int>" and "acc * 10 ^ dp \<in> \<int>"
    and "(\<bar>acc\<bar> + sum_list (map abs vs)) * 10 ^ dp < 10 ^ 28" and "dp \<le> 999999"
  shows "dec_sum acc vs = Inr (acc + sum_list vs)"
  using assms
proof (induction vs arbitrary: acc)
  case Nil
  then show ?case by simp
next
  case (Cons v vs)
  have i: "(acc + v) * 10 ^ dp \<in> \<int>"
    using Cons.prems(1,2) by (simp add: distrib_right)
  have s0: "0 \<le> sum_list (map abs vs)"
    by (rule sum_list_nonneg) auto
  have lt: "(\<bar>acc\<bar> + (\<bar>v\<bar> + sum_list (map abs vs))) * 10 ^ dp < 10 ^ 28"
    using Cons.prems(3) by simp
  have "\<bar>acc + v\<bar> \<le> \<bar>acc\<bar> + (\<bar>v\<bar> + sum_list (map abs vs))"
    using s0 by linarith
  then have "\<bar>acc + v\<bar> * 10 ^ dp \<le> (\<bar>acc\<bar> + (\<bar>v\<bar> + sum_list (map abs vs))) * 10 ^ dp"
    by (intro mult_right_mono) simp_all
  then have b: "\<bar>acc + v\<bar> * 10 ^ dp < 10 ^ 28"
    using lt by (rule le_less_trans)
  have f: "dec_add acc v = Inr (acc + v)"
    unfolding dec_add_def using i b Cons.prems(4) by (rule dec_fix_exact_ints)
  have "\<bar>acc + v\<bar> + sum_list (map abs vs) \<le> \<bar>acc\<bar> + (\<bar>v\<bar> + sum_list (map abs vs))"
    by linarith
  then have "(\<bar>acc + v\<bar> + sum_list (map abs vs)) * 10 ^ dp
      \<le> (\<bar>acc\<bar> + (\<bar>v\<bar> + sum_list (map abs vs))) * 10 ^ dp"
    by (intro mult_right_mono) simp_all
  then have b': "(\<bar>acc + v\<bar> + sum_list (map abs vs)) * 10 ^ dp < 10 ^ 28"
    using lt by (rule le_less_trans)
  have "dec_sum (acc + v) vs = Inr (acc + v + sum_list vs)"
    using Cons.prems(1) i b' Cons.prems(4) by (intro Cons.IH) simp_all
  then show ?case
    using f by (simp add: add.assoc)
qed

section \<open>Fiscal calendar: the claims\<close>

text \<open>
  C7 (amended). For every year \<open>Y\<close> and every date \<open>d\<close> from September 1 of year \<open>Y\<close>
  through August 31 of year \<open>Y + 1\<close> inclusive, the fiscal-year function returns \<open>Y\<close>, which
  is \<open>d\<close>'s calendar year from September on and the year before otherwise; and for every
  year \<open>Y\<close> with \<open>1 \<le> Y \<le> 9998\<close> the fiscal-year-range function applied to \<open>Y\<close> returns
  exactly the pair (September 1 of \<open>Y\<close>, August 31 of \<open>Y + 1\<close>).
\<close>

theorem fiscal_year_of_date_and_range:
  "(valid_date d \<and> date_le (Date Y 9 1) d \<and> date_le d (Date (Y + 1) 8 31) \<longrightarrow>
      get_fiscal_year d 9 = Y
      \<and> get_fiscal_year d 9 = (if 9 \<le> month d then year d else year d - 1))
   \<and> (1 \<le> Y \<and> Y \<le> 9998 \<longrightarrow>
        get_fiscal_year_range Y 9 = Inr (Date Y 9 1, Date (Y + 1) 8 31))"
proof -
  have "get_fiscal_year d 9 = Y"
    if "valid_date d" "date_le (Date Y 9 1) d" "date_le d (Date (Y + 1) 8 31)"
    using that by (cases d) (auto simp: get_fiscal_year_def date_le_def valid_date_def)
  moreover have "get_fiscal_year d 9 = (if 9 \<le> month d then year d else year d - 1)"
    by (simp add: get_fiscal_year_def)
  moreover have "get_fiscal_year_range Y 9 = Inr (Date Y 9 1, Date (Y + 1) 8 31)"
    if "1 \<le> Y" "Y \<le> 9998"
    using that by (rule fiscal_range_ok)
  ultimately show ?thesis
    by blast
qed

theorem fiscal_year_of_date_and_range_witness:
  "valid_date (Date 2025 4 15) \<and> date_le (Date 2024 9 1) (Date 2025 4 15)
     \<and> date_le (Date 2025 4 15) (Date (2024 + 1) 8 31)
     \<and> get_fiscal_year (Date 2025 4 15) 9 = 2024
     \<and> (1::int) \<le> 2024 \<and> (2024::int) \<le> 9998
     \<and> get_fiscal_year_range 2024 9 = Inr (Date 2024 9 1, Date 2025 8 31)"
proof -
  have v: "valid_date (Date 2025 4 15)"
    by (simp add: valid_date_def days_in_month_def mdays_def)
  have l1: "date_le (Date 2024 9 1) (Date 2025 4 15)"
    by (simp add: date_le_def)
  have l2: "date_le (Date 2025 4 15) (Date (2024 + 1) 8 31)"
    by (simp add: date_le_def)
  show ?thesis
    using fiscal_year_of_date_and_range [of "Date 2025 4 15" 2024] v l1 l2 by simp
qed

text \<open>
  The claim as written fails at \<open>Y = 9999\<close>: September 1 of 9999 is a date of fiscal year
  9999, and the range function raises ValueError instead of returning a pair, August 31
  of year 10000 not being a date.
\<close>

theorem fiscal_year_range_counterexample:
  "valid_date (Date 9999 9 1) \<and> get_fiscal_year (Date 9999 9 1) 9 = 9999
     \<and> get_fiscal_year_range 9999 9 = Inl ValueError"
  by (simp add: valid_date_def days_in_month_def mdays_def get_fiscal_year_def
        get_fiscal_year_range_def monthrange_days_def mk_date_def c_int_def)

text \<open>
  C9 (amended). For every year \<open>Y\<close> with \<open>1 \<le> Y \<le> 9998\<close>, the months of fiscal year \<open>Y\<close>
  without an up-to bound are exactly the 12 month starts from September 1 of \<open>Y\<close> to
  August 1 of \<open>Y + 1\<close>, in order, each the first day of the month after the one before.
\<close>

theorem months_in_fiscal_year_list:
  assumes "1 \<le> Y" and "Y \<le> 9998"
  shows "get_months_in_fiscal_year Y None 9 =
     Inr [Date Y 9 1, Date Y 10 1, Date Y 11 1, Date Y 12 1,
          Date (Y + 1) 1 1, Date (Y + 1) 2 1, Date (Y + 1) 3 1, Date (Y + 1) 4 1,
          Date (Y + 1) 5 1, Date (Y + 1) 6 1, Date (Y + 1) 7 1, Date (Y + 1) 8 1]"
proof -
  have a: "1 \<le> Y" "Y \<le> 9998" "Y \<le> 9999" "0 \<le> Y" "1 \<le> Y + 1" "Y + 1 \<le> 9999"
    using assms by simp_all
  show ?thesis
    using a
    by (simp add: get_months_in_fiscal_year_def fiscal_range_ok months_loop_same_year
          months_loop_december months_loop_stop date_le_def)
qed

theorem months_in_fiscal_year_list_witness:
  "(1::int) \<le> 2024 \<and> (2024::int) \<le> 9998
   \<and> get_months_in_fiscal_year 2024 None 9 =
     Inr [Date 2024 9 1, Date 2024 10 1, Date 2024 11 1, Date 2024 12 1,
          Date 2025 1 1, Date 2025 2 1, Date 2025 3 1, Date 2025 4 1,
          Date 2025 5 1, Date 2025 6 1, Date 2025 7 1, Date 2025 8 1]
   \<and> length [Date 2024 9 1, Date 2024 10 1, Date 2024 11 1, Date 2024 12 1,
          Date 2025 1 1, Date 2025 2 1, Date 2025 3 1, Date 2025 4 1,
          Date 2025 5 1, Date 2025 6 1, Date 2025 7 1, Date 2025 8 1] = 12"
  using months_in_fiscal_year_list [of 2024] by simp

text \<open>
  The claim as written fails at \<open>Y = 9999\<close>, where no list is returned: the end of the
  fiscal year is not a date, and the function raises ValueError.
\<close>

theorem months_in_fiscal_year_counterexample:
  "get_months_in_fiscal_year 9999 None 9 = Inl ValueError"
  by (simp add: get_months_in_fiscal_year_def get_fiscal_year_range_def monthrange_days_def
        days_in_month_def mdays_def mk_date_def c_int_def valid_date_def)

text \<open>
  C10. The quarter-to-months lookup returns (9, 10, 11), (12, 1, 2), (3, 4, 5) and
  (6, 7, 8) for the quarters 1 to 4, and the months of quarter 1 for every other integer.
\<close>

theorem quarter_months_lookup:
  "get_quarter_months 1 = (9, 10, 11) \<and> get_quarter_months 2 = (12, 1, 2)
     \<and> get_quarter_months 3 = (3, 4, 5) \<and> get_quarter_months 4 = (6, 7, 8)
     \<and> (q \<notin> {1, 2, 3, 4} \<longrightarrow> get_quarter_months q = (9, 10, 11))"
  by (auto simp: get_quarter_months_def quarter_to_months_def)

theorem quarter_months_lookup_witness:
  "(7::int) \<notin> {1, 2, 3, 4} \<and> get_quarter_months 7 = (9, 10, 11)
     \<and> (0::int) \<notin> {1, 2, 3, 4} \<and> get_quarter_months 0 = (9, 10, 11)
     \<and> get_quarter_months (- 2) = (9, 10, 11)"
  using quarter_months_lookup [of 7] quarter_months_lookup [of 0] quarter_months_lookup [of "- 2"]
  by simp

section \<open>Derived metrics: the claims\<close>

text \<open>
  C6. The alert level is "none" for a rate of at least 100, "warning" for a rate of at
  least 80 and below 100, "critical" for a rate below 80 and "none" for a null rate; 80.00
  is "warning", 79.99 is "critical", and no other value is ever returned.
\<close>

theorem alert_level_thresholds:
  "get_alert_level None = ''none''
     \<and> (100 \<le> r \<longrightarrow> get_alert_level (Some r) = ''none'')
     \<and> (80 \<le> r \<and> r < 100 \<longrightarrow> get_alert_level (Some r) = ''warning'')
     \<and> (r < 80 \<longrightarrow> get_alert_level (Some r) = ''critical'')
     \<and> get_alert_level (Some 80) = ''warning''
     \<and> get_alert_level (Some (7999 / 100)) = ''critical''
     \<and> get_alert_level x \<in> {''none'', ''warning'', ''critical''}"
  by (auto simp: get_alert_level_def split: option.splits)

theorem alert_level_thresholds_witness:
  "(100::rat) \<le> 100 \<and> get_alert_level (Some 100) = ''none''
     \<and> (80::rat) \<le> 8333 / 100 \<and> (8333::rat) / 100 < 100
     \<and> get_alert_level (Some (8333 / 100)) = ''warning''
     \<and> (50::rat) < 80 \<and> get_alert_level (Some 50) = ''critical''"
  using alert_level_thresholds [of 100] alert_level_thresholds [of "8333 / 100"]
    alert_level_thresholds [of 50]
  by simp

text \<open>
  C4 (amended). The achievement rate is null when the target \<open>t\<close> is zero, whatever the
  actual (a null actual included). A null target, and a null actual with a non-zero
  target, raise TypeError: the parameters are declared Decimal, not optional. For a
  Decimal actual \<open>x\<close> and a non-zero Decimal target \<open>t\<close> the function either returns a rate
  or raises InvalidOperation or Overflow; it returns a rate whenever
  \<open>\<bar>x / t \<times> 100\<bar> \<le> 10\<^sup>2\<^sup>6 - 1\<close>. A returned rate is the product by 100 of the quotient
  \<open>x / t\<close>, both rounded to 28 significant digits by the context, rounded half-up to 2
  decimal places; it differs from \<open>x / t \<times> 100\<close> by at most
  \<open>0.005 + \<bar>x / t \<times> 100\<bar> / 10\<^sup>2\<^sup>6 + 1 / 10\<^sup>9\<^sup>0\<close>. Half-up rounding of \<open>w\<close> gives an integer at most
  \<open>1 / 2\<close> away from \<open>w\<close>, and of the two integers exactly \<open>1 / 2\<close> away the one of the larger
  magnitude.
\<close>

theorem achievement_rate_cases:
  "calculate_achievement_rate a (Some 0) = Inr None
     \<and> (t \<noteq> 0 \<longrightarrow> calculate_achievement_rate None (Some t) = Inl TypeError)
     \<and> calculate_achievement_rate a None = Inl TypeError
     \<and> (t \<noteq> 0 \<longrightarrow>
          (\<exists>z. calculate_achievement_rate (Some x) (Some t) = Inr (Some z))
          \<or> calculate_achievement_rate (Some x) (Some t) = Inl InvalidOperation
          \<or> calculate_achievement_rate (Some x) (Some t) = Inl Overflow)
     \<and> (t \<noteq> 0 \<and> \<bar>x / t * 100\<bar> \<le> 10 ^ 26 - 1 \<longrightarrow>
          (\<exists>z. calculate_achievement_rate (Some x) (Some t) = Inr (Some z)))
     \<and> (t \<noteq> 0 \<and> calculate_achievement_rate (Some x) (Some t) = Inr r \<longrightarrow>
          (\<exists>z q p. r = Some z \<and> dec_div x t = Inr q \<and> dec_mul q 100 = Inr p
             \<and> z = of_int (round_half_up (p * 100)) / 100
             \<and> \<bar>z - x / t * 100\<bar> \<le> 1 / 200 + \<bar>x / t * 100\<bar> / 10 ^ 26 + 1 / 10 ^ 90))
     \<and> \<bar>of_int (round_half_up w) - w\<bar> \<le> 1 / 2
     \<and> (\<bar>of_int (round_half_up w) - w\<bar> = 1 / 2 \<longrightarrow> \<bar>w\<bar> < \<bar>of_int (round_half_up w)\<bar>)"
proof -
  have 1: "calculate_achievement_rate a (Some 0) = Inr None"
    by (simp add: calculate_achievement_rate_def)
  have 2: "t \<noteq> 0 \<longrightarrow> calculate_achievement_rate None (Some t) = Inl TypeError"
    by (simp add: calculate_achievement_rate_def)
  have 3: "calculate_achievement_rate a None = Inl TypeError"
    by (simp add: calculate_achievement_rate_def split: option.splits)
  have 4: "t \<noteq> 0 \<longrightarrow>
          (\<exists>z. calculate_achievement_rate (Some x) (Some t) = Inr (Some z))
          \<or> calculate_achievement_rate (Some x) (Some t) = Inl InvalidOperation
          \<or> calculate_achievement_rate (Some x) (Some t) = Inl Overflow"
    using achievement_rate_outcomes[of t x] by blast
  have 5: "t \<noteq> 0 \<and> \<bar>x / t * 100\<bar> \<le> 10 ^ 26 - 1 \<longrightarrow>
          (\<exists>z. calculate_achievement_rate (Some x) (Some t) = Inr (Some z))"
    using achievement_rate_returns[of t x] by blast
  have 6: "t \<noteq> 0 \<and> calculate_achievement_rate (Some x) (Some t) = Inr r \<longrightarrow>
          (\<exists>z q p. r = Some z \<and> dec_div x t = Inr q \<and> dec_mul q 100 = Inr p
             \<and> z = of_int (round_half_up (p * 100)) / 100
             \<and> \<bar>z - x / t * 100\<bar> \<le> 1 / 200 + \<bar>x / t * 100\<bar> / 10 ^ 26 + 1 / 10 ^ 90)"
    using achievement_rate_accuracy[of t x r] by blast
  have 7: "\<bar>of_int (round_half_up w) - w\<bar> \<le> 1 / 2"
    by (rule round_half_up_near)
  have 8: "\<bar>of_int (round_half_up w) - w\<bar> = 1 / 2 \<longrightarrow> \<bar>w\<bar> < \<bar>of_int (round_half_up w)\<bar>"
    using round_half_up_tie[of w] by blast
  show ?thesis
    using 1 2 3 4 5 6 7 8 by (intro conjI)
qed

theorem achievement_rate_cases_witness:
  "(360::rat) \<noteq> 0 \<and> \<bar>(300::rat) / 360 * 100\<bar> \<le> 10 ^ 26 - 1
     \<and> calculate_achievement_rate (Some 300) (Some 360) = Inr (Some (8333 / 100))
     \<and> \<bar>(8333::rat) / 100 - 300 / 360 * 100\<bar> \<le> 1 / 200 + \<bar>300 / 360 * 100\<bar> / 10 ^ 26 + 1 / 10 ^ 90
     \<and> calculate_achievement_rate None (Some 360) = Inl TypeError
     \<and> calculate_achievement_rate (Some 300) (Some 0) = Inr None
     \<and> \<bar>of_int (round_half_up (5 / 2)) - (5::rat) / 2\<bar> = 1 / 2
     \<and> round_half_up (5 / 2) = 3
     \<and> \<bar>(5::rat) / 2\<bar> < \<bar>of_int (round_half_up (5 / 2))\<bar>"
proof -
  have e: "calculate_achievement_rate (Some 300) (Some 360) = Inr (Some (8333 / 100))"
    by (simp add: calculate_achievement_rate_def dec_eval)
  have h: "round_half_up (5 / 2) = 3"
    by (simp add: round_half_up_def)
  show ?thesis
    using achievement_rate_cases [of "Some 300" 360 300 "Some (8333 / 100)" "5 / 2"] e h
    by simp
qed

text \<open>
  The claim as written fails for a null target and for a null actual with a non-zero
  target: both raise instead of returning null. It also fails for operands that are not
  null: at \<open>x = 10\<^sup>2\<^sup>4\<close>, \<open>t = 1\<close> the function raises InvalidOperation, the rate needing 29
  digits, and at \<open>x = 4999999999999999999999999999996\<close>, \<open>t = 10\<^sup>3\<^sup>5\<close> it returns 0.01, the
  quotient being rounded to 28 digits first, where \<open>x / t \<times> 100\<close> rounded to 2 decimal
  places is 0.00.
\<close>

theorem achievement_rate_null_counterexample:
  "calculate_achievement_rate (Some 50) None = Inl TypeError
     \<and> calculate_achievement_rate None (Some 100) = Inl TypeError
     \<and> calculate_achievement_rate (Some (10 ^ 24)) (Some 1) = Inl InvalidOperation
     \<and> calculate_achievement_rate (Some 4999999999999999999999999999996) (Some (10 ^ 35))
         = Inr (Some (1 / 100))
     \<and> round_half_up (4999999999999999999999999999996 / 10 ^ 35 * 100 * 100) = 0"
  by (simp add: calculate_achievement_rate_def dec_eval)

section \<open>Year-to-date aggregation: the claims\<close>

text \<open>
  C1 (amended). For every list of fact rows and every as-of date whose fiscal year lies in
  1..9998, the year-to-date aggregation adds up, in row order and in the 28-digit Decimal
  arithmetic of the context, the non-null values of the rows whose is_target flag matches
  the requested variant and whose date lies in the window from the fiscal-year start of
  the as-of date through the as-of date inclusive. When these values have at most \<open>dp\<close>
  decimal places and their absolute values sum to less than \<open>10\<^sup>2\<^sup>8 / 10\<^sup>d\<^sup>p\<close>, no addition
  is rounded and the result is their exact sum, a null value counting as zero. Months with
  no row contribute nothing, and the result is zero, not null, when no matching row exists
  in the window.
\<close>

theorem calculate_ytd_window_sum:
  fixes dp :: nat
  assumes "1 \<le> get_fiscal_year d 9" "get_fiscal_year d 9 \<le> 9998"
  shows "calculate_ytd rows d t = dec_sum 0 (present_values (filter (in_ytd_window d t) rows))
     \<and> ((\<forall>v \<in> set (present_values (filter (in_ytd_window d t) rows)). v * 10 ^ dp \<in> \<int>)
          \<and> sum_list (map abs (present_values (filter (in_ytd_window d t) rows))) * 10 ^ dp < 10 ^ 28
          \<and> dp \<le> 999999 \<longrightarrow>
            calculate_ytd rows d t =
              Inr (sum_list (map value_or_zero (filter (in_ytd_window d t) rows)))
          \<and> calculate_ytd rows d t =
              Inr (case yearToDate_spec rows d t of None \<Rightarrow> 0 | Some v \<Rightarrow> v))
     \<and> (filter (in_ytd_window d t) rows = [] \<longrightarrow> calculate_ytd rows d t = Inr 0)"
proof -
  let ?vs = "present_values (filter (in_ytd_window d t) rows)"
  have 1: "calculate_ytd rows d t = dec_sum 0 ?vs"
    using assms by (rule calculate_ytd_sum)
  have 2: "calculate_ytd rows d t =
              Inr (sum_list (map value_or_zero (filter (in_ytd_window d t) rows)))
          \<and> calculate_ytd rows d t =
              Inr (case yearToDate_spec rows d t of None \<Rightarrow> 0 | Some v \<Rightarrow> v)"
    if h: "\<forall>v \<in> set ?vs. v * 10 ^ dp \<in> \<int>" "sum_list (map abs ?vs) * 10 ^ dp < 10 ^ 28"
      "dp \<le> 999999"
  proof -
    have "dec_sum 0 ?vs = Inr (0 + sum_list ?vs)"
      using h by (intro dec_sum_exact) simp_all
    then have "calculate_ytd rows d t =
        Inr (sum_list (map value_or_zero (filter (in_ytd_window d t) rows)))"
      unfolding 1 by (simp add: present_values_sum)
    then show ?thesis
      by (simp add: yearToDate_spec_def Let_def)
  qed
  have 3: "filter (in_ytd_window d t) rows = [] \<longrightarrow> calculate_ytd rows d t = Inr 0"
    unfolding 1 by simp
  show ?thesis
    using 1 2 3 by blast
qed

theorem calculate_ytd_window_sum_witness:
  "1 \<le> get_fiscal_year (Date 2024 11 1) 9 \<and> get_fiscal_year (Date 2024 11 1) 9 \<le> 9998
     \<and> (401 / 4 :: rat) * 10 ^ 2 \<in> \<int> \<and> (399 / 4 :: rat) * 10 ^ 2 \<in> \<int>
     \<and> sum_list (map abs [401 / 4, 399 / 4 :: rat]) * 10 ^ 2 < 10 ^ 28
     \<and> (2::nat) \<le> 999999
     \<and> calculate_ytd
          [\<lparr>row_kpi_id = ''sales'', row_segment_id = ''s1'', row_date = Some (Date 2024 8 1),
            row_value = Some 70, row_is_target = False\<rparr>,
           \<lparr>row_kpi_id = ''sales'', row_segment_id = ''s1'', row_date = Some (Date 2024 9 1),
            row_value = Some (401 / 4), row_is_target = False\<rparr>,
           \<lparr>row_kpi_id = ''sales'', row_segment_id = ''s1'', row_date = Some (Date 2024 9 1),
            row_value = Some 120, row_is_target = True\<rparr>,
           \<lparr>row_kpi_id = ''sales'', row_segment_id = ''s1'', row_date = Some (Date 2024 10 1),
            row_value = None, row_is_target = False\<rparr>,
           \<lparr>row_kpi_id = ''sales'', row_segment_id = ''s1'', row_date = Some (Date 2024 11 1),
            row_value = Some (399 / 4), row_is_target = False\<rparr>,
           \<lparr>row_kpi_id = ''sales'', row_segment_id = ''s1'', row_date = Some (Date 2024 12 1),
            row_value = Some 100, row_is_target = False\<rparr>]
          (Date 2024 11 1) False = Inr 200
     \<and> filter (in_ytd_window (Date 2024 11 1) True) [] = []
     \<and> calculate_ytd [] (Date 2024 11 1) True = Inr 0"
proof -
  have a: "1 \<le> get_fiscal_year (Date 2024 11 1) 9" "get_fiscal_year (Date 2024 11 1) 9 \<le> 9998"
    by (simp_all add: get_fiscal_year_def)
  have i: "(401 / 4 :: rat) * 10 ^ 2 \<in> \<int>" "(399 / 4 :: rat) * 10 ^ 2 \<in> \<int>"
    by simp_all
  show ?thesis
    using calculate_ytd_window_sum [OF a, of _ False 2] calculate_ytd_window_sum [OF a, of "[]" True 0] a i
    by (simp add: in_ytd_window_def get_fiscal_year_def date_le_def value_or_zero_def dec_eval)
qed

text \<open>
  The claim as written fails where no matching row exists: the specified operation is
  absent there, and the code returns zero. It also fails as a statement about the sum: the
  rows \<open>10\<^sup>2\<^sup>8\<close> and 1 add up to \<open>10\<^sup>2\<^sup>8\<close>, the sum being rounded to 28 digits.
\<close>

theorem calculate_ytd_empty_counterexample:
  "calculate_ytd [] (Date 2024 11 1) False = Inr 0
     \<and> yearToDate_spec [] (Date 2024 11 1) False = None
     \<and> calculate_ytd
          [\<lparr>row_kpi_id = ''sales'', row_segment_id = ''s1'', row_date = Some (Date 2024 9 1),
            row_value = Some (10 ^ 28), row_is_target = False\<rparr>,
           \<lparr>row_kpi_id = ''sales'', row_segment_id = ''s1'', row_date = Some (Date 2024 10 1),
            row_value = Some 1, row_is_target = False\<rparr>]
          (Date 2024 11 1) False = Inr (10 ^ 28)"
  by (simp add: calculate_ytd_def fiscal_range_ok get_fiscal_year_def yearToDate_spec_def
        date_le_def dec_eval)

section \<open>Target upsert: auxiliary facts\<close>

lemma normalize_valid:
  "valid_date d \<Longrightarrow> normalize_to_month_start d = Inr (Date (year d) (month d) 1)"
  by (simp add: normalize_to_month_start_def mk_date_first valid_date_def)

lemma filter_key_single:
  "distinct (map f xs) \<Longrightarrow> x \<in> set xs \<Longrightarrow> filter (\<lambda>y. f y = f x) xs = [x]"
proof (induction xs)
  case Nil
  then show ?case by simp
next
  case (Cons a xs)
  show ?case
  proof (cases "a = x")
    case True
    have "f x \<notin> f ` set xs"
      using Cons.prems(1) True by simp
    then have "filter (\<lambda>y. f y = f x) xs = []"
      unfolding filter_empty_conv by (metis imageI)
    then show ?thesis using True by simp
  next
    case False
    then have "x \<in> set xs" using Cons.prems(2) by simp
    moreover have "f a \<noteq> f x" using Cons.prems(1) \<open>x \<in> set xs\<close> by auto
    ultimately show ?thesis using Cons by simp
  qed
qed

lemma table_inv_alt:
  "table_inv t = (distinct (map fact_id (facts t))
     \<and> (\<forall>i \<in> set (map fact_id (facts t)). i < next_id t)
     \<and> distinct (map (identity_of \<circ> fact_data) (facts t)))"
  by (auto simp: table_inv_def list_all_iff)

lemma mem_insert_path:
  assumes inv: "table_inv t" and none: "rows_with t (identity_of data) = []"
  shows "\<exists>t1. mem_insert t data = (t1, Inr [\<lparr>fact_id = next_id t, fact_data = data\<rparr>])
     \<and> table_inv t1
     \<and> rows_with t1 (identity_of data) = [\<lparr>fact_id = next_id t, fact_data = data\<rparr>]"
proof -
  have ids: "\<forall>r \<in> set (facts t). fact_id r < next_id t"
    using inv by (simp add: table_inv_def list_all_iff)
  have fresh: "next_id t \<notin> fact_id ` set (facts t)"
    using ids by auto
  have nokey: "identity_of data \<notin> (identity_of \<circ> fact_data) ` set (facts t)"
    using none by (auto simp: rows_with_def filter_empty_conv)
  have "table_inv (fst (mem_insert t data))"
    using inv fresh nokey ids
    by (auto simp: table_inv_def mem_insert_def Let_def list_all_iff)
  moreover have "rows_with (fst (mem_insert t data)) (identity_of data) = [\<lparr>fact_id = next_id t, fact_data = data\<rparr>]"
    using none by (simp add: rows_with_def mem_insert_def Let_def)
  moreover have "mem_insert t data = (fst (mem_insert t data), Inr [\<lparr>fact_id = next_id t, fact_data = data\<rparr>])"
    by (simp add: mem_insert_def Let_def)
  ultimately show ?thesis by blast
qed

lemma mem_update_path:
  assumes inv: "table_inv t" and one: "rows_with t (identity_of data) = r0 # rest"
  shows "\<exists>t1. mem_update t (fact_id r0) data = (t1, Inr [\<lparr>fact_id = fact_id r0, fact_data = data\<rparr>])
     \<and> table_inv t1
     \<and> rows_with t1 (identity_of data) = [\<lparr>fact_id = fact_id r0, fact_data = data\<rparr>]
     \<and> map fact_id (rows_with t (identity_of data)) = [fact_id r0]
     \<and> (fact_data r0 = data \<longrightarrow> t1 = t)"
proof -
  let ?K = "identity_of \<circ> fact_data"
  let ?U = "\<lambda>r. if fact_id r = fact_id r0 then r\<lparr>fact_data := data\<rparr> else r"
  have r0: "r0 \<in> set (facts t)" "?K r0 = identity_of data"
    using one Cons_eq_filterD[of r0 rest "\<lambda>r. identity_of (fact_data r) = identity_of data" "facts t"]
    by (auto simp: rows_with_def)
  have dk: "distinct (map ?K (facts t))" and di: "distinct (map fact_id (facts t))"
    using inv by (simp_all add: table_inv_def)
  have single: "filter (\<lambda>r. ?K r = ?K r0) (facts t) = [r0]"
    using dk r0(1) by (rule filter_key_single)
  have same_id: "r = r0" if "r \<in> set (facts t)" "fact_id r = fact_id r0" for r
    using di that r0(1) by (meson distinct_map inj_onD)
  have KU: "?K (?U r) = ?K r" if "r \<in> set (facts t)" for r
    using same_id[OF that] r0(2) by auto
  have IU: "fact_id (?U r) = fact_id r" for r by simp
  have mapK: "map ?K (map ?U (facts t)) = map ?K (facts t)"
    using KU by (simp add: comp_def cong: map_cong)
  have mapI: "map fact_id (map ?U (facts t)) = map fact_id (facts t)"
    by (simp add: comp_def)
  have fu: "facts (fst (mem_update t (fact_id r0) data)) = map ?U (facts t)"
    and nu: "next_id (fst (mem_update t (fact_id r0) data)) = next_id t"
    by (simp_all add: mem_update_def Let_def)
  have inv': "table_inv (fst (mem_update t (fact_id r0) data))"
    using inv unfolding table_inv_alt fu nu mapK mapI .
  have "filter (\<lambda>r. ?K r = identity_of data) (map ?U (facts t))
      = map ?U (filter (\<lambda>r. ?K (?U r) = identity_of data) (facts t))"
    by (simp add: filter_map comp_def)
  also have "filter (\<lambda>r. ?K (?U r) = identity_of data) (facts t) = filter (\<lambda>r. ?K r = ?K r0) (facts t)"
    using KU r0(2) by (intro filter_cong) auto
  finally have rw: "rows_with (fst (mem_update t (fact_id r0) data)) (identity_of data) = [?U r0]"
    using single by (simp add: rows_with_def mem_update_def Let_def comp_def)
  have U0: "?U r0 = \<lparr>fact_id = fact_id r0, fact_data = data\<rparr>"
    by simp
  have "filter (\<lambda>r. fact_id r = fact_id r0) (map ?U (facts t)) = map ?U (filter (\<lambda>r. fact_id r = fact_id r0) (facts t))"
    by (simp add: filter_map comp_def)
  moreover have "filter (\<lambda>r. fact_id r = fact_id r0) (facts t) = [r0]"
    using filter_key_single[OF di r0(1)] by simp
  ultimately have resp: "snd (mem_update t (fact_id r0) data) = Inr [?U r0]"
    by (simp add: mem_update_def Let_def)
  have sel: "map fact_id (rows_with t (identity_of data)) = [fact_id r0]"
    using single r0(2) by (simp add: rows_with_def)
  have idem: "fst (mem_update t (fact_id r0) data) = t" if "fact_data r0 = data"
  proof -
    have "?U r = r" if "r \<in> set (facts t)" for r
      using same_id[OF that] \<open>fact_data r0 = data\<close> by auto
    then have "map ?U (facts t) = facts t"
      by (simp add: map_idI)
    then show ?thesis by (simp add: mem_update_def Let_def)
  qed
  have "mem_update t (fact_id r0) data
      = (fst (mem_update t (fact_id r0) data), Inr [\<lparr>fact_id = fact_id r0, fact_data = data\<rparr>])"
    using resp U0 by (simp add: prod_eq_iff)
  then show ?thesis
    using inv' rw U0 sel idem by (intro exI[of _ "fst (mem_update t (fact_id r0) data)"]) simp
qed



lemma finish_upsert_simps:
  "finish_upsert c (s, Inl e) = (s, Inl e)"
  "finish_upsert c (s, Inr []) = (s, Inl RegistrationFailed)"
  "finish_upsert c (s, Inr (r # rs)) = (s, Inr \<lparr>result_id = fact_id r, is_created = c\<rparr>)"
  by (simp_all add: finish_upsert_def)

lemma mem_client_simps:
  "select_ids mem_client = mem_select" "update_by_id mem_client = mem_update"
  "insert_row mem_client = mem_insert"
  by (simp_all add: mem_client_def)

lemma create_target_value_mem:
  assumes inv: "table_inv t" and v: "valid_date m0"
    and data: "data = \<lparr>data_segment_id = seg, data_kpi_id = kpi,
                 data_date = Date (year m0) (month m0) 1, data_value = val, data_is_target = True\<rparr>"
  shows "\<exists>t1 i. create_target_value mem_client t seg kpi m0 val
            = (t1, Inr \<lparr>result_id = i, is_created = (rows_with t (identity_of data) = [])\<rparr>)
     \<and> table_inv t1
     \<and> rows_with t1 (identity_of data) = [\<lparr>fact_id = i, fact_data = data\<rparr>]
     \<and> (rows_with t (identity_of data) = [\<lparr>fact_id = i, fact_data = data\<rparr>] \<longrightarrow> t1 = t)
     \<and> (\<forall>r \<in> set (rows_with t (identity_of data)). fact_id r = i)"
proof -
  let ?m = "Date (year m0) (month m0) 1"
  have key: "identity_of data = (seg, kpi, ?m, True)"
    by (simp add: identity_of_def data)
  have sel: "mem_select t seg kpi ?m = (t, Inr (map fact_id (rows_with t (identity_of data))))"
    by (simp add: mem_select_def rows_with_def key)
  have unfold: "create_target_value mem_client t seg kpi m0 val =
      (case map fact_id (rows_with t (identity_of data)) of
         i # _ \<Rightarrow> finish_upsert False (mem_update t i data)
       | [] \<Rightarrow> finish_upsert True (mem_insert t data))"
    by (simp add: create_target_value_def normalize_valid[OF v] mem_client_simps sel data[symmetric])
  show ?thesis
  proof (cases "rows_with t (identity_of data)")
    case Nil
    from mem_insert_path[OF inv Nil] obtain t1 where
      all: "mem_insert t data = (t1, Inr [\<lparr>fact_id = next_id t, fact_data = data\<rparr>])
        \<and> table_inv t1
        \<and> rows_with t1 (identity_of data) = [\<lparr>fact_id = next_id t, fact_data = data\<rparr>]"
      by (rule exE)
    note c = all[THEN conjunct1] and a = all[THEN conjunct2, THEN conjunct1]
      and b = all[THEN conjunct2, THEN conjunct2]
    have 1: "create_target_value mem_client t seg kpi m0 val
        = (t1, Inr \<lparr>result_id = next_id t, is_created = (rows_with t (identity_of data) = [])\<rparr>)"
      unfolding unfold by (simp add: Nil c finish_upsert_simps)
    have 2: "rows_with t (identity_of data) = [\<lparr>fact_id = next_id t, fact_data = data\<rparr>] \<longrightarrow> t1 = t"
      unfolding Nil by simp
    have 3: "\<forall>r \<in> set (rows_with t (identity_of data)). fact_id r = next_id t"
      unfolding Nil by simp
    show ?thesis
      by (rule exI[of _ t1], rule exI[of _ "next_id t"]) (intro conjI 1 a b 2 3)
  next
    case (Cons r0 rest)
    from mem_update_path[OF inv Cons] obtain t1 where
      all: "mem_update t (fact_id r0) data = (t1, Inr [\<lparr>fact_id = fact_id r0, fact_data = data\<rparr>])
        \<and> table_inv t1
        \<and> rows_with t1 (identity_of data) = [\<lparr>fact_id = fact_id r0, fact_data = data\<rparr>]
        \<and> map fact_id (rows_with t (identity_of data)) = [fact_id r0]
        \<and> (fact_data r0 = data \<longrightarrow> t1 = t)"
      by (rule exE)
    note c = all[THEN conjunct1]
      and a = all[THEN conjunct2, THEN conjunct1]
      and b = all[THEN conjunct2, THEN conjunct2, THEN conjunct1]
      and d = all[THEN conjunct2, THEN conjunct2, THEN conjunct2, THEN conjunct1]
      and e = all[THEN conjunct2, THEN conjunct2, THEN conjunct2, THEN conjunct2]
    have ne: "(rows_with t (identity_of data) = []) = False"
      unfolding Cons by simp
    have 1: "create_target_value mem_client t seg kpi m0 val
        = (t1, Inr \<lparr>result_id = fact_id r0, is_created = (rows_with t (identity_of data) = [])\<rparr>)"
      unfolding unfold d ne by (simp add: c finish_upsert_simps)
    have 2: "rows_with t (identity_of data) = [\<lparr>fact_id = fact_id r0, fact_data = data\<rparr>]
        \<longrightarrow> t1 = t"
    proof
      assume "rows_with t (identity_of data) = [\<lparr>fact_id = fact_id r0, fact_data = data\<rparr>]"
      then have "r0 # rest = [\<lparr>fact_id = fact_id r0, fact_data = data\<rparr>]"
        unfolding Cons .
      then have "r0 = \<lparr>fact_id = fact_id r0, fact_data = data\<rparr>"
        by (rule list.inject[THEN iffD1, THEN conjunct1])
      then have "fact_data r0 = fact_data \<lparr>fact_id = fact_id r0, fact_data = data\<rparr>"
        by (rule arg_cong)
      then have "fact_data r0 = data"
        by simp
      with e show "t1 = t" by (rule mp)
    qed
    have 3: "\<forall>r \<in> set (rows_with t (identity_of data)). fact_id r = fact_id r0"
    proof
      fix r assume "r \<in> set (rows_with t (identity_of data))"
      then have "fact_id r \<in> set (map fact_id (rows_with t (identity_of data)))"
        by simp
      then show "fact_id r = fact_id r0"
        unfolding d by simp
    qed
    show ?thesis
      by (rule exI[of _ t1], rule exI[of _ "fact_id r0"]) (intro conjI 1 a b 2 3)
  qed
qed

lemma bulk_loop_append:
  "bulk_loop c (xs @ ys) s r = (case bulk_loop c xs s r of (s1, r1) \<Rightarrow> bulk_loop c ys s1 r1)"
  by (induction xs arbitrary: s r) (auto split: prod.splits sum.splits)

lemma bulk_loop_counts:
  "bulk_loop c ts s r = (s', r') \<Longrightarrow>
   created_count r' + updated_count r' + length (errors r')
     = created_count r + updated_count r + length (errors r) + length ts"
proof (induction ts arbitrary: s r)
  case Nil
  then show ?case by simp
next
  case (Cons t ts)
  obtain s1 o1 where c: "create_target_value c s (t_segment_id t) (t_kpi_id t) (t_month t) (t_value t) = (s1, o1)"
    by (cases "create_target_value c s (t_segment_id t) (t_kpi_id t) (t_month t) (t_value t)")
  show ?case
  proof (cases o1)
    case (Inl e)
    with Cons.prems c have "bulk_loop c ts s1 (r\<lparr>errors := errors r @ [(t_segment_id t, t_kpi_id t, e)]\<rparr>) = (s', r')"
      by simp
    from Cons.IH[OF this] show ?thesis by simp
  next
    case (Inr res)
    show ?thesis
    proof (cases "is_created res")
      case True
      with Cons.prems c Inr have "bulk_loop c ts s1 (r\<lparr>created_count := created_count r + 1\<rparr>) = (s', r')"
        by simp
      from Cons.IH[OF this] show ?thesis by simp
    next
      case False
      with Cons.prems c Inr have "bulk_loop c ts s1 (r\<lparr>updated_count := updated_count r + 1\<rparr>) = (s', r')"
        by simp
      from Cons.IH[OF this] show ?thesis by simp
    qed
  qed
qed

lemma rejecting_client_simps:
  "select_ids (rejecting_client u) = mem_select" "update_by_id (rejecting_client u) = mem_update"
  "insert_row (rejecting_client u) t d = (if data_segment_id d = u
                                  then (t, Inl (ClientError ''foreign key violation''))
                                  else mem_insert t d)"
  by (simp_all add: rejecting_client_def mem_client_def)

lemma ex_bulk3:
  "bulk_upsert_targets (rejecting_client ''ghost'') \<lparr>facts = [], next_id = 1\<rparr>
      [\<lparr>t_segment_id = ''s1'', t_kpi_id = ''k1'', t_month = Date 2024 11 1, t_value = 100\<rparr>,
       \<lparr>t_segment_id = ''ghost'', t_kpi_id = ''k1'', t_month = Date 2024 11 1, t_value = 50\<rparr>,
       \<lparr>t_segment_id = ''s1'', t_kpi_id = ''k1'', t_month = Date 2024 11 20, t_value = 120\<rparr>]
   = (\<lparr>facts = [\<lparr>fact_id = 1, fact_data = \<lparr>data_segment_id = ''s1'', data_kpi_id = ''k1'',
             data_date = Date 2024 11 1, data_value = 120, data_is_target = True\<rparr>\<rparr>], next_id = 2\<rparr>,
      \<lparr>created_count = 1, updated_count = 1,
        errors = [(''ghost'', ''k1'', ClientError ''foreign key violation'')]\<rparr>)"
  by (simp add: bulk_upsert_targets_def create_target_value_def normalize_to_month_start_def
        mk_date_def c_int_def valid_date_def days_in_month_def mdays_def
        rejecting_client_simps mem_select_def mem_insert_def mem_update_def
          finish_upsert_simps Let_def identity_of_def)

section \<open>Target upsert: the claims\<close>

text \<open>
  C2. On every table that satisfies the invariant (at most one row per composite identity,
  unique row ids), calling the single-row target upsert twice with the same segment, KPI,
  month and value leaves exactly one row with that composite identity, holding the given
  value; the second call changes nothing, succeeds, and reports the row as updated
  (\<open>is_created = False\<close>).
\<close>

theorem create_target_value_twice:
  assumes "table_inv t" and "valid_date m0"
  shows "\<exists>t1 r1 i. create_target_value mem_client t seg kpi m0 val = (t1, r1)
     \<and> create_target_value mem_client t1 seg kpi m0 val
           = (t1, Inr \<lparr>result_id = i, is_created = False\<rparr>)
     \<and> rows_with t1 (seg, kpi, Date (year m0) (month m0) 1, True)
           = [\<lparr>fact_id = i, fact_data = \<lparr>data_segment_id = seg, data_kpi_id = kpi,
                data_date = Date (year m0) (month m0) 1, data_value = val, data_is_target = True\<rparr>\<rparr>]
     \<and> table_inv t1"
proof -
  define data where "data = \<lparr>data_segment_id = seg, data_kpi_id = kpi,
      data_date = Date (year m0) (month m0) 1, data_value = val, data_is_target = True\<rparr>"
  have key: "identity_of data = (seg, kpi, Date (year m0) (month m0) 1, True)"
    by (simp add: identity_of_def data_def)
  from create_target_value_mem[OF assms data_def] obtain t1 i where
    all1: "create_target_value mem_client t seg kpi m0 val
          = (t1, Inr \<lparr>result_id = i, is_created = (rows_with t (identity_of data) = [])\<rparr>)
     \<and> table_inv t1
     \<and> rows_with t1 (identity_of data) = [\<lparr>fact_id = i, fact_data = data\<rparr>]
     \<and> (rows_with t (identity_of data) = [\<lparr>fact_id = i, fact_data = data\<rparr>] \<longrightarrow> t1 = t)
     \<and> (\<forall>r \<in> set (rows_with t (identity_of data)). fact_id r = i)"
    by (elim exE)
  note c1 = all1[THEN conjunct1] and inv1 = all1[THEN conjunct2, THEN conjunct1]
    and one1 = all1[THEN conjunct2, THEN conjunct2, THEN conjunct1]
  from create_target_value_mem[OF inv1 assms(2) data_def] obtain t2 j where
    all2: "create_target_value mem_client t1 seg kpi m0 val
          = (t2, Inr \<lparr>result_id = j, is_created = (rows_with t1 (identity_of data) = [])\<rparr>)
     \<and> table_inv t2
     \<and> rows_with t2 (identity_of data) = [\<lparr>fact_id = j, fact_data = data\<rparr>]
     \<and> (rows_with t1 (identity_of data) = [\<lparr>fact_id = j, fact_data = data\<rparr>] \<longrightarrow> t2 = t1)
     \<and> (\<forall>r \<in> set (rows_with t1 (identity_of data)). fact_id r = j)"
    by (elim exE)
  note c2 = all2[THEN conjunct1]
    and same = all2[THEN conjunct2, THEN conjunct2, THEN conjunct2, THEN conjunct1]
    and ids = all2[THEN conjunct2, THEN conjunct2, THEN conjunct2, THEN conjunct2]
  have "\<lparr>fact_id = i, fact_data = data\<rparr> \<in> set (rows_with t1 (identity_of data))"
    unfolding one1 by simp
  with ids have "fact_id \<lparr>fact_id = i, fact_data = data\<rparr> = j"
    by (rule bspec)
  then have ij: "j = i" by simp
  have t21: "t2 = t1"
    using same one1 unfolding ij by (rule mp)
  have ne: "(rows_with t1 (identity_of data) = []) = False"
    unfolding one1 by simp
  have second: "create_target_value mem_client t1 seg kpi m0 val
      = (t1, Inr \<lparr>result_id = i, is_created = False\<rparr>)"
    using c2 unfolding ij t21 ne .
  have rows: "rows_with t1 (seg, kpi, Date (year m0) (month m0) 1, True)
           = [\<lparr>fact_id = i, fact_data = \<lparr>data_segment_id = seg, data_kpi_id = kpi,
                data_date = Date (year m0) (month m0) 1, data_value = val, data_is_target = True\<rparr>\<rparr>]"
    using one1 unfolding key unfolding data_def .
  show ?thesis
    by (rule exI[of _ t1],
        rule exI[of _ "Inr \<lparr>result_id = i, is_created = (rows_with t (identity_of data) = [])\<rparr>"],
        rule exI[of _ i]) (intro conjI c1 second rows inv1)
qed

theorem create_target_value_twice_witness:
  "table_inv \<lparr>facts = [], next_id = 1\<rparr> \<and> valid_date (Date 2024 11 15)
   \<and> create_target_value mem_client \<lparr>facts = [], next_id = 1\<rparr> ''s1'' ''k1'' (Date 2024 11 15) 120
       = (\<lparr>facts = [\<lparr>fact_id = 1, fact_data = \<lparr>data_segment_id = ''s1'', data_kpi_id = ''k1'',
             data_date = Date 2024 11 1, data_value = 120, data_is_target = True\<rparr>\<rparr>], next_id = 2\<rparr>,
          Inr \<lparr>result_id = 1, is_created = True\<rparr>)
   \<and> create_target_value mem_client
         \<lparr>facts = [\<lparr>fact_id = 1, fact_data = \<lparr>data_segment_id = ''s1'', data_kpi_id = ''k1'',
             data_date = Date 2024 11 1, data_value = 120, data_is_target = True\<rparr>\<rparr>], next_id = 2\<rparr>
         ''s1'' ''k1'' (Date 2024 11 15) 120
       = (\<lparr>facts = [\<lparr>fact_id = 1, fact_data = \<lparr>data_segment_id = ''s1'', data_kpi_id = ''k1'',
             data_date = Date 2024 11 1, data_value = 120, data_is_target = True\<rparr>\<rparr>], next_id = 2\<rparr>,
          Inr \<lparr>result_id = 1, is_created = False\<rparr>)"
proof -
  have i: "table_inv \<lparr>facts = [], next_id = 1\<rparr>"
    by (simp add: table_inv_def)
  have v: "valid_date (Date 2024 11 15)"
    by (simp add: valid_date_def days_in_month_def mdays_def)
  have n: "normalize_to_month_start (Date 2024 11 15) = Inr (Date 2024 11 1)"
    by (simp add: normalize_valid[OF v])
  have 1: "create_target_value mem_client \<lparr>facts = [], next_id = 1\<rparr> ''s1'' ''k1'' (Date 2024 11 15) 120
       = (\<lparr>facts = [\<lparr>fact_id = 1, fact_data = \<lparr>data_segment_id = ''s1'', data_kpi_id = ''k1'',
             data_date = Date 2024 11 1, data_value = 120, data_is_target = True\<rparr>\<rparr>], next_id = 2\<rparr>,
          Inr \<lparr>result_id = 1, is_created = True\<rparr>)"
    by (simp add: create_target_value_def n mem_client_simps mem_select_def mem_insert_def
          finish_upsert_simps Let_def)
  have 2: "create_target_value mem_client
         \<lparr>facts = [\<lparr>fact_id = 1, fact_data = \<lparr>data_segment_id = ''s1'', data_kpi_id = ''k1'',
             data_date = Date 2024 11 1, data_value = 120, data_is_target = True\<rparr>\<rparr>], next_id = 2\<rparr>
         ''s1'' ''k1'' (Date 2024 11 15) 120
       = (\<lparr>facts = [\<lparr>fact_id = 1, fact_data = \<lparr>data_segment_id = ''s1'', data_kpi_id = ''k1'',
             data_date = Date 2024 11 1, data_value = 120, data_is_target = True\<rparr>\<rparr>], next_id = 2\<rparr>,
          Inr \<lparr>result_id = 1, is_created = False\<rparr>)"
    by (simp add: create_target_value_def n mem_client_simps mem_select_def mem_update_def
          finish_upsert_simps Let_def identity_of_def)
  show ?thesis
    using create_target_value_twice [OF i v, of "''s1''" "''k1''" 120] i v 1 2
    by (intro conjI) 
qed

text \<open>
  C3. The bulk upsert handles each row on its own. Its counts always add up to the number
  of input rows. Whatever happened to the rows before it, a row is applied to the state
  those rows left: when it raises, one entry goes to the error list and the counts stay;
  otherwise the state it wrote is kept and it is counted as created or as updated.
\<close>

theorem bulk_upsert_rows_independent:
  "created_count (snd (bulk_upsert_targets c s targets))
       + updated_count (snd (bulk_upsert_targets c s targets))
       + length (errors (snd (bulk_upsert_targets c s targets))) = length targets
   \<and> bulk_upsert_targets c s (targets @ [t]) =
       (case bulk_upsert_targets c s targets of
          (s1, r) \<Rightarrow>
            (case create_target_value c s1 (t_segment_id t) (t_kpi_id t) (t_month t) (t_value t) of
               (s2, Inl e) \<Rightarrow> (s2, r\<lparr>errors := errors r @ [(t_segment_id t, t_kpi_id t, e)]\<rparr>)
             | (s2, Inr res) \<Rightarrow>
                 (s2, if is_created res then r\<lparr>created_count := created_count r + 1\<rparr>
                      else r\<lparr>updated_count := updated_count r + 1\<rparr>)))"
proof -
  obtain s' r' where b: "bulk_upsert_targets c s targets = (s', r')"
    by (cases "bulk_upsert_targets c s targets")
  then have "bulk_loop c targets s \<lparr>created_count = 0, updated_count = 0, errors = []\<rparr> = (s', r')"
    by (simp add: bulk_upsert_targets_def)
  from bulk_loop_counts[OF this] have 1: "created_count r' + updated_count r' + length (errors r') = length targets"
    by simp
  have 2: "bulk_upsert_targets c s (targets @ [t]) =
       (case bulk_upsert_targets c s targets of
          (s1, r) \<Rightarrow>
            (case create_target_value c s1 (t_segment_id t) (t_kpi_id t) (t_month t) (t_value t) of
               (s2, Inl e) \<Rightarrow> (s2, r\<lparr>errors := errors r @ [(t_segment_id t, t_kpi_id t, e)]\<rparr>)
             | (s2, Inr res) \<Rightarrow>
                 (s2, if is_created res then r\<lparr>created_count := created_count r + 1\<rparr>
                      else r\<lparr>updated_count := updated_count r + 1\<rparr>)))"
    by (simp add: bulk_upsert_targets_def bulk_loop_append split: prod.splits sum.splits)
  show ?thesis using 1 2 b by simp
qed

theorem bulk_upsert_rows_independent_witness:
  "bulk_upsert_targets (rejecting_client ''ghost'') \<lparr>facts = [], next_id = 1\<rparr>
      ([\<lparr>t_segment_id = ''s1'', t_kpi_id = ''k1'', t_month = Date 2024 11 1, t_value = 100\<rparr>,
        \<lparr>t_segment_id = ''ghost'', t_kpi_id = ''k1'', t_month = Date 2024 11 1, t_value = 50\<rparr>,
        \<lparr>t_segment_id = ''s1'', t_kpi_id = ''k1'', t_month = Date 2024 11 20, t_value = 120\<rparr>]
       @ [\<lparr>t_segment_id = ''s2'', t_kpi_id = ''k1'', t_month = Date 2024 11 1, t_value = 80\<rparr>])
   = (\<lparr>facts = [\<lparr>fact_id = 1, fact_data = \<lparr>data_segment_id = ''s1'', data_kpi_id = ''k1'',
             data_date = Date 2024 11 1, data_value = 120, data_is_target = True\<rparr>\<rparr>,
                \<lparr>fact_id = 2, fact_data = \<lparr>data_segment_id = ''s2'', data_kpi_id = ''k1'',
             data_date = Date 2024 11 1, data_value = 80, data_is_target = True\<rparr>\<rparr>], next_id = 3\<rparr>,
      \<lparr>created_count = 2, updated_count = 1,
        errors = [(''ghost'', ''k1'', ClientError ''foreign key violation'')]\<rparr>)"
proof -
  have c: "create_target_value (rejecting_client ''ghost'')
      \<lparr>facts = [\<lparr>fact_id = 1, fact_data = \<lparr>data_segment_id = ''s1'', data_kpi_id = ''k1'',
             data_date = Date 2024 11 1, data_value = 120, data_is_target = True\<rparr>\<rparr>], next_id = 2\<rparr>
      ''s2'' ''k1'' (Date 2024 11 1) 80
    = (\<lparr>facts = [\<lparr>fact_id = 1, fact_data = \<lparr>data_segment_id = ''s1'', data_kpi_id = ''k1'',
             data_date = Date 2024 11 1, data_value = 120, data_is_target = True\<rparr>\<rparr>,
                \<lparr>fact_id = 2, fact_data = \<lparr>data_segment_id = ''s2'', data_kpi_id = ''k1'',
             data_date = Date 2024 11 1, data_value = 80, data_is_target = True\<rparr>\<rparr>], next_id = 3\<rparr>,
       Inr \<lparr>result_id = 2, is_created = True\<rparr>)"
    by (simp add: create_target_value_def normalize_to_month_start_def
        mk_date_def c_int_def valid_date_def days_in_month_def mdays_def
        rejecting_client_simps mem_select_def mem_insert_def
          finish_upsert_simps Let_def identity_of_def)
  show ?thesis
    using bulk_upsert_rows_independent
      [of "rejecting_client ''ghost''" "\<lparr>facts = [], next_id = 1\<rparr>"
          "[\<lparr>t_segment_id = ''s1'', t_kpi_id = ''k1'', t_month = Date 2024 11 1, t_value = 100\<rparr>,
            \<lparr>t_segment_id = ''ghost'', t_kpi_id = ''k1'', t_month = Date 2024 11 1, t_value = 50\<rparr>,
            \<lparr>t_segment_id = ''s1'', t_kpi_id = ''k1'', t_month = Date 2024 11 20, t_value = 120\<rparr>]"
          "\<lparr>t_segment_id = ''s2'', t_kpi_id = ''k1'', t_month = Date 2024 11 1, t_value = 80\<rparr>"]
    unfolding ex_bulk3 by (simp add: c)
qed

section \<open>Department summary: auxiliary facts\<close>









section \<open>Department summary: the claims\<close>




end
